theory Spec2Isabelle
  imports Complex_Main "HOL-Library.Word"
begin

unbundle bit_operations_syntax

section \<open>JavaScript values as the program sees them\<close>

text \<open>
  A JavaScript number is an IEEE 754 double: a finite value, one of the two infinities, or
  NaN. A finite value is the rational it stands for; the type holds every rational, and the
  operators below return doubles. The sign of zero is not modelled.
  \<open>JSON.parse\<close> yields finite values and the infinities (\<open>1e999\<close> reads as \<open>Infinity\<close>);
  NaN arises from arithmetic and from \<open>Number\<close>.
\<close>

datatype jsnum = Fin rat | PInf | NInf | NaN

text \<open>The exact sum of two numbers, before it is rounded.\<close>

fun exact_add :: "jsnum \<Rightarrow> jsnum \<Rightarrow> jsnum" where
  "exact_add (Fin a) (Fin b) = Fin (a + b)"
| "exact_add NaN y = NaN"
| "exact_add x NaN = NaN"
| "exact_add PInf NInf = NaN"
| "exact_add NInf PInf = NaN"
| "exact_add PInf y = PInf"
| "exact_add NInf y = NInf"
| "exact_add x PInf = PInf"
| "exact_add x NInf = NInf"

text \<open>The exact product of two numbers, before it is rounded.\<close>

fun exact_mul :: "jsnum \<Rightarrow> jsnum \<Rightarrow> jsnum" where
  "exact_mul (Fin a) (Fin b) = Fin (a * b)"
| "exact_mul NaN y = NaN"
| "exact_mul x NaN = NaN"
| "exact_mul PInf (Fin b) = (if b = 0 then NaN else if 0 < b then PInf else NInf)"
| "exact_mul NInf (Fin b) = (if b = 0 then NaN else if 0 < b then NInf else PInf)"
| "exact_mul (Fin a) PInf = (if a = 0 then NaN else if 0 < a then PInf else NInf)"
| "exact_mul (Fin a) NInf = (if a = 0 then NaN else if 0 < a then NInf else PInf)"
| "exact_mul PInf PInf = PInf"
| "exact_mul NInf NInf = PInf"
| "exact_mul PInf NInf = NInf"
| "exact_mul NInf PInf = NInf"

text \<open>
  The exact quotient of two numbers, before it is rounded (a zero divisor is \<open>+0\<close>).
\<close>

fun exact_div :: "jsnum \<Rightarrow> jsnum \<Rightarrow> jsnum" where
  "exact_div (Fin a) (Fin b) =
     (if b = 0 then (if a = 0 then NaN else if 0 < a then PInf else NInf) else Fin (a / b))"
| "exact_div NaN y = NaN"
| "exact_div x NaN = NaN"
| "exact_div PInf (Fin b) = (if 0 \<le> b then PInf else NInf)"
| "exact_div NInf (Fin b) = (if 0 \<le> b then NInf else PInf)"
| "exact_div (Fin a) PInf = Fin 0"
| "exact_div (Fin a) NInf = Fin 0"
| "exact_div PInf y = NaN"
| "exact_div NInf y = NaN"

subsection \<open>Rounding to a double\<close>

text \<open>The number of binary digits of a natural number.\<close>

fun bits :: "nat \<Rightarrow> nat" where
  "bits n = (if n = 0 then 0 else Suc (bits (n div 2)))"

declare bits.simps [simp del]

text \<open>The exponent \<open>e\<close> of a positive rational \<open>x\<close>: \<open>2 ^ e \<le> x < 2 ^ (e + 1)\<close>.\<close>

definition floor_log2 :: "rat \<Rightarrow> int" where
  "floor_log2 x = (if 1 \<le> x then int (bits (nat \<lfloor>x\<rfloor>)) - 1
                   else - int (bits (nat (\<lceil>1 / x\<rceil> - 1))))"

text \<open>The nearest integer, a tie going to the even one.\<close>

definition rne :: "rat \<Rightarrow> int" where
  "rne y = (let f = \<lfloor>y\<rfloor>; r = y - of_int f
            in if r < 1 / 2 then f else if 1 / 2 < r then f + 1
               else if even f then f else f + 1)"

text \<open>
  The double nearest to a rational, a tie going to the even significand (the rounding of
  every arithmetic operation, and of \<open>JSON.parse\<close> on a decimal literal). A double has 53
  binary digits above the exponent \<open>-1022\<close> and the spacing \<open>2 ^ -1074\<close> below it; a
  result of \<open>2 ^ 1024\<close> or more is an infinity.
\<close>

definition double :: "rat \<Rightarrow> jsnum" where
  "double x =
     (if x = 0 then Fin 0
      else let e = max (floor_log2 \<bar>x\<bar>) (- 1022);
               q = power_int 2 (e - 52);
               y = of_int (rne (\<bar>x\<bar> / q)) * q
           in if 2 ^ 1024 \<le> y then (if 0 < x then PInf else NInf)
              else Fin (if 0 < x then y else - y))"

fun fl :: "jsnum \<Rightarrow> jsnum" where
  "fl (Fin a) = double a"
| "fl x = x"

text \<open>The operators \<open>+\<close>, \<open>*\<close> and \<open>/\<close> on two numbers: the exact result, rounded.\<close>

definition num_add :: "jsnum \<Rightarrow> jsnum \<Rightarrow> jsnum" where
  "num_add x y = fl (exact_add x y)"

definition num_mul :: "jsnum \<Rightarrow> jsnum \<Rightarrow> jsnum" where
  "num_mul x y = fl (exact_mul x y)"

definition num_div :: "jsnum \<Rightarrow> jsnum \<Rightarrow> jsnum" where
  "num_div x y = fl (exact_div x y)"

text \<open>The comparison \<open>x >= y\<close>: false as soon as one side is NaN.\<close>

fun num_ge :: "jsnum \<Rightarrow> jsnum \<Rightarrow> bool" where
  "num_ge (Fin a) (Fin b) = (b \<le> a)"
| "num_ge NaN y = False"
| "num_ge x NaN = False"
| "num_ge PInf y = True"
| "num_ge x NInf = True"
| "num_ge NInf y = False"
| "num_ge x PInf = False"

text \<open>\<open>Math.round\<close>: the nearest integer, a tie going up; the result is exact.\<close>

fun Math_round :: "jsnum \<Rightarrow> jsnum" where
  "Math_round (Fin a) = Fin (of_int \<lfloor>a + 1 / 2\<rfloor>)"
| "Math_round x = x"

text \<open>
  A decoded value: what \<open>JSON.parse\<close> returns, and \<open>undefined\<close> for what a property read
  finds missing. An object is its list of properties, read with \<open>map_of\<close>. A string is the
  list of its characters.
\<close>

datatype jsval =
    JUndefined
  | JNull
  | JBool bool
  | JNum jsnum
  | JStr string
  | JArr "jsval list"
  | JObj "(string \<times> jsval) list"

datatype error = AbortError | TypeError | SyntaxError | Error

text \<open>\<open>ToBoolean\<close>, the test of \<open>if (v)\<close>, \<open>!v\<close>, \<open>v || w\<close> and \<open>v ? a : b\<close>.\<close>

fun truthy :: "jsval \<Rightarrow> bool" where
  "truthy JUndefined = False"
| "truthy JNull = False"
| "truthy (JBool b) = b"
| "truthy (JNum n) = (n \<noteq> NaN \<and> n \<noteq> Fin 0)"
| "truthy (JStr s) = (s \<noteq> [])"
| "truthy (JArr xs) = True"
| "truthy (JObj kvs) = True"

text \<open>\<open>v == null\<close>: the value is \<open>null\<close> or \<open>undefined\<close>.\<close>

fun nullish :: "jsval \<Rightarrow> bool" where
  "nullish JUndefined = True"
| "nullish JNull = True"
| "nullish v = False"

text \<open>
  Reading a property of a value that is neither \<open>null\<close> nor \<open>undefined\<close>. The names the
  program reads (\<open>players\<close>, \<open>white\<close>, \<open>black\<close>, \<open>user\<close>, \<open>name\<close>, \<open>team\<close>, \<open>analysis\<close>,
  \<open>moves\<close>, \<open>status\<close>, \<open>inaccuracy\<close>, \<open>mistake\<close>, \<open>blunder\<close>, \<open>accuracy\<close>, \<open>id\<close>,
  \<open>fullName\<close>, \<open>nbPlayers\<close>, \<open>tournamentId\<close>, \<open>type\<close>) are properties of no
  prototype, so only an object that holds the name itself has it.
\<close>

fun get :: "jsval \<Rightarrow> string \<Rightarrow> jsval" where
  "get (JObj kvs) k = (case map_of kvs k of Some v \<Rightarrow> v | None \<Rightarrow> JUndefined)"
| "get v k = JUndefined"

text \<open>\<open>v.k\<close> throws a TypeError on \<open>null\<close> and \<open>undefined\<close>; \<open>v?.k\<close> is \<open>undefined\<close> there.\<close>

definition dot :: "jsval \<Rightarrow> string \<Rightarrow> error + jsval" where
  "dot v k = (if nullish v then Inl TypeError else Inr (get v k))"

definition opt :: "jsval \<Rightarrow> string \<Rightarrow> jsval" where
  "opt v k = (if nullish v then JUndefined else get v k)"

text \<open>
  \<open>Number(v)\<close>. On \<open>undefined\<close>, \<open>null\<close>, a boolean and a number the result is fixed. On a
  string, an array or an object it is the runtime's \<open>StringToNumber\<close> and \<open>ToPrimitive\<close>
  (which can throw a TypeError on an object whose \<open>toString\<close> and \<open>valueOf\<close> are not
  callable); that part of the runtime is the parameter \<open>conv\<close>.
\<close>

fun Number :: "(jsval \<Rightarrow> error + jsnum) \<Rightarrow> jsval \<Rightarrow> error + jsnum" where
  "Number conv JUndefined = Inr NaN"
| "Number conv JNull = Inr (Fin 0)"
| "Number conv (JBool b) = Inr (Fin (if b then 1 else 0))"
| "Number conv (JNum n) = Inr n"
| "Number conv v = conv v"

text \<open>\<open>n || 0\<close> on a number: NaN and 0 are falsy.\<close>

definition or0 :: "jsnum \<Rightarrow> jsnum" where
  "or0 n = (if n = NaN \<or> n = Fin 0 then Fin 0 else n)"

text \<open>\<open>Number(v) || 0\<close>.\<close>

definition Number_or0 :: "(jsval \<Rightarrow> error + jsnum) \<Rightarrow> jsval \<Rightarrow> error + jsnum" where
  "Number_or0 conv v = (case Number conv v of Inl e \<Rightarrow> Inl e | Inr n \<Rightarrow> Inr (or0 n))"

text \<open>\<open>s.split(sep)\<close> for a separator of one character: one piece more than separators.\<close>

fun str_split :: "'a \<Rightarrow> 'a list \<Rightarrow> 'a list list" where
  "str_split sep [] = [[]]"
| "str_split sep (c # cs) =
     (if c = sep then [] # str_split sep cs
      else (case str_split sep cs of [] \<Rightarrow> [[c]] | l # ls \<Rightarrow> (c # l) # ls))"

section \<open>The aggregation state of one request (server.js, lines 67-73)\<close>

text \<open>
  The accumulator of a player. Its three sums and its samples are numbers in server.js,
  which coerces what it adds; the type of these fields is the parameter \<open>'n\<close>.
\<close>

record 'n player =
  username :: jsval
  inaccuracies :: 'n
  mistakes :: 'n
  blunders :: 'n
  gamesPlayed :: nat
  analyzedGames :: nat
  team :: jsval
  accuracies :: "'n list"

text \<open>
  The \<open>Map\<close> \<open>ps\<close> keeps its entries in insertion order: a list of keys and values, a new
  key going to the end. A key is any value: \<open>has\<close> and \<open>get\<close> compare strings, numbers and
  booleans by value, and an array or an object by identity, so that a freshly decoded array
  or object is never found.
\<close>

type_synonym players = "(jsval \<times> jsnum player) list"

record totals =
  gameCount :: nat
  unanalyzedCount :: nat
  lichessCount :: nat
  fullyAnalyzedCount :: nat
  shortCount :: nat
  ps :: players

definition start :: totals where
  "start = \<lparr>gameCount = 0, unanalyzedCount = 0, lichessCount = 0, fullyAnalyzedCount = 0,
            shortCount = 0, ps = []\<rparr>"

fun by_identity :: "jsval \<Rightarrow> bool" where
  "by_identity (JArr xs) = True"
| "by_identity (JObj kvs) = True"
| "by_identity v = False"

text \<open>The position of the entry that \<open>ps.get(k)\<close> returns, \<open>None\<close> when \<open>ps.has(k)\<close> is false.\<close>

fun Map_index :: "jsval \<Rightarrow> (jsval \<times> 'v) list \<Rightarrow> nat option" where
  "Map_index k [] = None"
| "Map_index k ((k', p) # m) =
     (if k' = k \<and> \<not> by_identity k then Some 0 else map_option Suc (Map_index k m))"

section \<open>The per-game callback (server.js, lines 75-112)\<close>

text \<open>Line 85: \<open>g.moves ? g.moves.split(" ").length : 0\<close>; only a string has \<open>split\<close>.\<close>

definition moveCount :: "jsval \<Rightarrow> error + nat" where
  "moveCount g =
     (let moves = get g ''moves'' in
      if truthy moves then
        (case moves of JStr s \<Rightarrow> Inr (length (str_split (CHR '' '') s)) | _ \<Rightarrow> Inl TypeError)
      else Inr 0)"

text \<open>Lines 76-93: the counters of the tournament.\<close>

definition classify :: "jsval \<Rightarrow> totals \<Rightarrow> error + totals" where
  "classify g st =
     (let st1 = st\<lparr>gameCount := gameCount st + 1\<rparr> in
      case dot g ''players'' of Inl e \<Rightarrow> Inl e
      | Inr players \<Rightarrow>
        let whiteAnalysis = opt (opt players ''white'') ''analysis'';
            blackAnalysis = opt (opt players ''black'') ''analysis'';
            hasWhiteAnalysis = (\<not> nullish whiteAnalysis);
            hasBlackAnalysis = (\<not> nullish blackAnalysis);
            st2 = (if hasWhiteAnalysis \<or> hasBlackAnalysis
                   then st1\<lparr>lichessCount := lichessCount st1 + 1\<rparr> else st1);
            st3 = (if hasWhiteAnalysis \<and> hasBlackAnalysis
                   then st2\<lparr>fullyAnalyzedCount := fullyAnalyzedCount st2 + 1\<rparr> else st2)
        in case moveCount g of Inl e \<Rightarrow> Inl e
           | Inr mc \<Rightarrow>
             let isShortGame = (mc < 10 \<or> get g ''status'' = JStr ''aborted''
                                  \<or> get g ''status'' = JStr ''noStart'')
             in Inr (if \<not> hasWhiteAnalysis \<or> \<not> hasBlackAnalysis then
                       (if isShortGame then st3\<lparr>shortCount := shortCount st3 + 1\<rparr>
                        else if truthy (get g ''moves'')
                          then st3\<lparr>unanalyzedCount := unanalyzedCount st3 + 1\<rparr>
                        else st3)
                     else st3))"

text \<open>Line 96: \<open>g.players?.[c]?.user?.name || "Anonymous"\<close>.\<close>

definition side_name :: "jsval \<Rightarrow> string \<Rightarrow> jsval" where
  "side_name g c =
     (let n = opt (opt (opt (get g ''players'') c) ''user'') ''name''
      in if truthy n then n else JStr ''Anonymous'')"

text \<open>Lines 105-109: the body of \<open>if (a)\<close>, on the accumulator \<open>s\<close>.\<close>

definition add_analysis :: "(jsval \<Rightarrow> error + jsnum) \<Rightarrow> jsval \<Rightarrow> jsnum player \<Rightarrow> error + jsnum player" where
  "add_analysis conv a s =
     (case Number_or0 conv (get a ''inaccuracy'') of Inl e \<Rightarrow> Inl e
      | Inr i \<Rightarrow>
     (case Number_or0 conv (get a ''mistake'') of Inl e \<Rightarrow> Inl e
      | Inr m \<Rightarrow>
     (case Number_or0 conv (get a ''blunder'') of Inl e \<Rightarrow> Inl e
      | Inr b \<Rightarrow>
        let s1 = s\<lparr>inaccuracies := num_add (inaccuracies s) i,
                   mistakes := num_add (mistakes s) m,
                   blunders := num_add (blunders s) b\<rparr>
        in if \<not> nullish (get a ''accuracy'') then
             (case Number_or0 conv (get a ''accuracy'') of Inl e \<Rightarrow> Inl e
              | Inr x \<Rightarrow> Inr (s1\<lparr>accuracies := accuracies s1 @ [x],
                                  analyzedGames := analyzedGames s1 + 1\<rparr>))
           else Inr (s1\<lparr>analyzedGames := analyzedGames s1 + 1\<rparr>))))"

text \<open>Lines 100-110: what one side of a game does to its accumulator \<open>s\<close>.\<close>

definition update_player :: "(jsval \<Rightarrow> error + jsnum) \<Rightarrow> jsval \<Rightarrow> jsnum player \<Rightarrow> error + jsnum player" where
  "update_player conv pc s =
     (let s1 = s\<lparr>gamesPlayed := gamesPlayed s + 1\<rparr>;
          s2 = (if \<not> truthy (team s1) \<and> truthy (opt pc ''team'')
                then s1\<lparr>team := opt pc ''team''\<rparr> else s1);
          a = opt pc ''analysis''
      in if truthy a then add_analysis conv a s2 else Inr s2)"

text \<open>Line 97: the accumulator that \<open>ps.set\<close> stores for a name not seen before.\<close>

definition new_player :: "jsval \<Rightarrow> jsval \<Rightarrow> jsnum player" where
  "new_player name pc =
     \<lparr>username = name, inaccuracies = Fin 0, mistakes = Fin 0, blunders = Fin 0,
      gamesPlayed = 0, analyzedGames = 0, team = opt pc ''team'', accuracies = []\<rparr>"

text \<open>Lines 96-110: one turn of the loop \<open>for (const c of ["white", "black"])\<close>.\<close>

definition side :: "(jsval \<Rightarrow> error + jsnum) \<Rightarrow> string \<Rightarrow> jsval \<Rightarrow> players \<Rightarrow> error + players" where
  "side conv c g m =
     (let pc = opt (get g ''players'') c;
          name = side_name g c;
          m1 = (if Map_index name m = None then m @ [(name, new_player name pc)] else m);
          i = (case Map_index name m of None \<Rightarrow> length m | Some j \<Rightarrow> j)
      in case update_player conv pc (snd (m1 ! i)) of Inl e \<Rightarrow> Inl e
         | Inr s \<Rightarrow> Inr (m1[i := (fst (m1 ! i), s)]))"

definition onItem :: "(jsval \<Rightarrow> error + jsnum) \<Rightarrow> jsval \<Rightarrow> totals \<Rightarrow> error + totals" where
  "onItem conv g st =
     (case classify g st of Inl e \<Rightarrow> Inl e
      | Inr st1 \<Rightarrow>
     (case side conv ''white'' g (ps st1) of Inl e \<Rightarrow> Inl e
      | Inr m1 \<Rightarrow>
     (case side conv ''black'' g m1 of Inl e \<Rightarrow> Inl e
      | Inr m2 \<Rightarrow> Inr (st1\<lparr>ps := m2\<rparr>))))"

text \<open>The callback applied to the decoded games in order; the first exception ends it.\<close>

fun deliver :: "('g \<Rightarrow> 's \<Rightarrow> error + 's) \<Rightarrow> 'g list \<Rightarrow> 's \<Rightarrow> error + 's" where
  "deliver f [] st = Inr st"
| "deliver f (g # gs) st = (case f g st of Inl e \<Rightarrow> Inl e | Inr st' \<Rightarrow> deliver f gs st')"

section \<open>The NDJSON reader (server.js, lines 21-45)\<close>

text \<open>
  A chunk is a \<open>Uint8Array\<close>; a JavaScript string is a list of UTF-16 code units.
\<close>

type_synonym byte = "8 word"
type_synonym ustring = "nat list"

subsection \<open>\<open>TextDecoder\<close>: the UTF-8 decoder of the Encoding Standard\<close>

record utf8_decoder =
  code_point :: nat
  bytes_seen :: nat
  bytes_needed :: nat
  lower_boundary :: byte
  upper_boundary :: byte
  bom_seen :: bool

definition new_decoder :: utf8_decoder where
  "new_decoder = \<lparr>code_point = 0, bytes_seen = 0, bytes_needed = 0,
                   lower_boundary = 0x80, upper_boundary = 0xBF, bom_seen = False\<rparr>"

text \<open>The handler on a byte when no sequence is open; an error is the code point U+FFFD.\<close>

definition lead_byte :: "utf8_decoder \<Rightarrow> byte \<Rightarrow> utf8_decoder \<times> nat list" where
  "lead_byte d b =
     (if b \<le> 0x7F then (d, [unat b])
      else if 0xC2 \<le> b \<and> b \<le> 0xDF then
        (d\<lparr>bytes_needed := 1, code_point := unat (b AND 0x1F)\<rparr>, [])
      else if 0xE0 \<le> b \<and> b \<le> 0xEF then
        (d\<lparr>lower_boundary := (if b = 0xE0 then 0xA0 else lower_boundary d),
           upper_boundary := (if b = 0xED then 0x9F else upper_boundary d),
           bytes_needed := 2, code_point := unat (b AND 0xF)\<rparr>, [])
      else if 0xF0 \<le> b \<and> b \<le> 0xF4 then
        (d\<lparr>lower_boundary := (if b = 0xF0 then 0x90 else lower_boundary d),
           upper_boundary := (if b = 0xF4 then 0x8F else upper_boundary d),
           bytes_needed := 3, code_point := unat (b AND 0x7)\<rparr>, [])
      else (d, [0xFFFD]))"

definition reset :: "utf8_decoder \<Rightarrow> utf8_decoder" where
  "reset d = d\<lparr>code_point := 0, bytes_needed := 0, bytes_seen := 0,
               lower_boundary := 0x80, upper_boundary := 0xBF\<rparr>"

text \<open>
  The handler on any byte. A byte outside the boundaries ends the open sequence with an
  error and is then read again as the first byte of a sequence.
\<close>

definition handler :: "utf8_decoder \<Rightarrow> byte \<Rightarrow> utf8_decoder \<times> nat list" where
  "handler d b =
     (if bytes_needed d = 0 then lead_byte d b
      else if b < lower_boundary d \<or> upper_boundary d < b then
        (let (d', out) = lead_byte (reset d) b in (d', 0xFFFD # out))
      else
        (let d1 = d\<lparr>lower_boundary := 0x80, upper_boundary := 0xBF,
                     code_point := code_point d * 64 + unat (b AND 0x3F),
                     bytes_seen := bytes_seen d + 1\<rparr>
         in if bytes_seen d1 \<noteq> bytes_needed d1 then (d1, [])
            else (reset d1, [code_point d1])))"

definition utf16 :: "nat \<Rightarrow> ustring" where
  "utf16 cp =
     (if cp < 0x10000 then [cp]
      else [0xD800 + (cp - 0x10000) div 0x400, 0xDC00 + (cp - 0x10000) mod 0x400])"

text \<open>Writing the code points out: the first one is dropped when it is the byte order mark.\<close>

fun serialize :: "utf8_decoder \<Rightarrow> nat list \<Rightarrow> utf8_decoder \<times> ustring" where
  "serialize d [] = (d, [])"
| "serialize d (cp # cps) =
     (if \<not> bom_seen d \<and> cp = 0xFEFF then serialize (d\<lparr>bom_seen := True\<rparr>) cps
      else (let (d', t) = serialize (d\<lparr>bom_seen := True\<rparr>) cps in (d', utf16 cp @ t)))"

definition decode_byte :: "utf8_decoder \<Rightarrow> byte \<Rightarrow> utf8_decoder \<times> ustring" where
  "decode_byte d b = (let (d1, cps) = handler d b in serialize d1 cps)"

text \<open>\<open>decoder.decode(value, { stream: true })\<close>: the decoder keeps its state.\<close>

fun decode :: "utf8_decoder \<Rightarrow> byte list \<Rightarrow> utf8_decoder \<times> ustring" where
  "decode d [] = (d, [])"
| "decode d (b # bs) =
     (let (d1, t1) = decode_byte d b; (d2, t2) = decode d1 bs in (d2, t1 @ t2))"

text \<open>\<open>decoder.decode()\<close>: the end of the stream; an open sequence is an error.\<close>

definition decode_end :: "utf8_decoder \<Rightarrow> ustring" where
  "decode_end d = (if bytes_needed d \<noteq> 0 then snd (serialize (reset d) [0xFFFD]) else [])"

subsection \<open>The strings of the reader\<close>

text \<open>\<open>buffer.indexOf(x)\<close>, \<open>None\<close> for \<open>-1\<close>.\<close>

fun indexOf :: "'a list \<Rightarrow> 'a \<Rightarrow> nat option" where
  "indexOf [] x = None"
| "indexOf (c # cs) x = (if c = x then Some 0 else map_option Suc (indexOf cs x))"

text \<open>The code units that \<open>trim\<close> removes: white space and line terminators.\<close>

definition is_space :: "nat \<Rightarrow> bool" where
  "is_space c = (c \<in> {0x9, 0xA, 0xB, 0xC, 0xD, 0x20, 0xA0, 0x1680, 0x2028, 0x2029, 0x202F,
                       0x205F, 0x3000, 0xFEFF} \<or> (0x2000 \<le> c \<and> c \<le> 0x200A))"

definition trim :: "ustring \<Rightarrow> ustring" where
  "trim s = rev (dropWhile is_space (rev (dropWhile is_space s)))"

definition newline :: nat where
  "newline = 0xA"

lemma indexOf_less: "indexOf b x = Some i \<Longrightarrow> i < length b"
  by (induction b arbitrary: i) (auto split: if_splits)

subsection \<open>The loops\<close>

text \<open>
  Lines 33-39, the inner loop: every complete line of the buffer is trimmed and, unless
  empty, parsed and handed to the callback. \<open>parse\<close> is \<open>JSON.parse\<close>, \<open>None\<close> when it
  throws a SyntaxError.
\<close>

function drain :: "(ustring \<Rightarrow> 'g option) \<Rightarrow> ('g \<Rightarrow> 's \<Rightarrow> error + 's) \<Rightarrow> ustring \<Rightarrow> 's
    \<Rightarrow> error + (ustring \<times> 's)" where
  "drain parse f buffer st =
     (case indexOf buffer newline of None \<Rightarrow> Inr (buffer, st)
      | Some newlineIndex \<Rightarrow>
          if trim (take newlineIndex buffer) \<noteq> [] then
            (case parse (trim (take newlineIndex buffer)) of None \<Rightarrow> Inl SyntaxError
             | Some g \<Rightarrow>
                 (case f g st of Inl e \<Rightarrow> Inl e
                  | Inr st' \<Rightarrow> drain parse f (drop (newlineIndex + 1) buffer) st'))
          else drain parse f (drop (newlineIndex + 1) buffer) st)"
  by pat_completeness auto
termination
  by (relation "measure (\<lambda>(parse, f, buffer, st). length buffer)")
     (auto dest: indexOf_less)

declare drain.simps [simp del]

text \<open>Lines 28-40, the outer loop, over the chunks that \<open>reader.read()\<close> returns.\<close>

fun read_loop :: "(ustring \<Rightarrow> 'g option) \<Rightarrow> ('g \<Rightarrow> 's \<Rightarrow> error + 's) \<Rightarrow> byte list list
    \<Rightarrow> utf8_decoder \<Rightarrow> ustring \<Rightarrow> 's \<Rightarrow> error + (utf8_decoder \<times> ustring \<times> 's)" where
  "read_loop parse f [] d buffer st = Inr (d, buffer, st)"
| "read_loop parse f (v # rest) d buffer st =
     (let (d', t) = decode d v in
      case drain parse f (buffer @ t) st of Inl e \<Rightarrow> Inl e
      | Inr (buffer', st') \<Rightarrow> read_loop parse f rest d' buffer' st')"

text \<open>
  The body of a response is absent (\<open>None\<close>) or a stream, here the finite list of its
  chunks.
\<close>

definition forEachNdjson :: "(ustring \<Rightarrow> 'g option) \<Rightarrow> ('g \<Rightarrow> 's \<Rightarrow> error + 's)
    \<Rightarrow> byte list list option \<Rightarrow> 's \<Rightarrow> error + 's" where
  "forEachNdjson parse f body st =
     (case body of None \<Rightarrow> Inl Error
      | Some chunks \<Rightarrow>
          (case read_loop parse f chunks new_decoder [] st of Inl e \<Rightarrow> Inl e
           | Inr (d, buffer, st') \<Rightarrow>
               (let trailing = trim (buffer @ decode_end d) in
                if trailing \<noteq> [] then
                  (case parse trailing of None \<Rightarrow> Inl SyntaxError | Some g \<Rightarrow> f g st')
                else Inr st')))"

section \<open>Metrics and the ranking pool (server.js, lines 117-125)\<close>

record metric = "jsnum player" +
  accuracy :: jsnum

text \<open>Line 118: the mean of the samples, times ten, rounded, over ten; 0 without samples.\<close>

definition mean_accuracy :: "jsnum list \<Rightarrow> jsnum" where
  "mean_accuracy xs =
     (if length xs > 0 then
        num_div (Math_round (num_mul (num_div (foldl num_add (Fin 0) xs)
                                              (Fin (of_nat (length xs))))
                                     (Fin 10)))
                (Fin 10)
      else Fin 0)"

definition finalize :: "jsnum player \<Rightarrow> metric" where
  "finalize p =
     \<lparr>username = username p, inaccuracies = inaccuracies p, mistakes = mistakes p,
      blunders = blunders p, gamesPlayed = gamesPlayed p, analyzedGames = analyzedGames p,
      team = team p, accuracies = accuracies p,
      accuracy = mean_accuracy (accuracies p)\<rparr>"

text \<open>Line 117: \<open>Array.from(ps.values()).map(...)\<close>, in insertion order.\<close>

definition metrics_of :: "players \<Rightarrow> metric list" where
  "metrics_of m = map (\<lambda>e. finalize (snd e)) m"

definition withAnalysis :: "metric list \<Rightarrow> metric list" where
  "withAnalysis ms = filter (\<lambda>p. analyzedGames p > 0) ms"

text \<open>
  Line 123. The quotient of the two counts is compared as it is: rounding it to a double
  does not change the comparison with 0.5 for counts up to \<open>2 ^ 53\<close>, where the counters
  of JavaScript stop growing (lemma \<open>eligible_rounded\<close>).
\<close>

definition eligible :: "metric list \<Rightarrow> metric list" where
  "eligible ms =
     filter (\<lambda>p. analyzedGames p \<ge> 4 \<and>
                 num_ge (exact_div (Fin (of_nat (analyzedGames p))) (Fin (of_nat (gamesPlayed p))))
                        (Fin (1 / 2))) ms"

definition pool :: "metric list \<Rightarrow> metric list" where
  "pool ms = (if length (eligible ms) \<ge> 2 then eligible ms else withAnalysis ms)"

section \<open>The request handler (server.js, lines 48-152)\<close>

text \<open>
  What the handler sends: a status and a JSON body. An error body is \<open>{ error: text }\<close>;
  in the \<open>catch\<close> the text is the message of the exception. Of the payload the eight
  superlatives (lines 127-144) are left out: they read the pool, which is not empty there,
  and change neither the status nor the other fields.
\<close>

record payload =
  p_tournamentId :: jsval
  p_tournamentName :: jsval
  p_playerCount :: jsval
  p_gameCount :: nat
  p_analyzedByLichess :: nat
  p_totalAnalyzed :: nat
  p_skippedShortGames :: nat
  p_unanalyzedGames :: nat
  p_eligiblePlayers :: nat
  p_totalPlayersWithAnalysis :: nat
  p_playerMetrics :: "metric list"

datatype body = ErrorText string | ErrorMessage error | Payload payload

record reply =
  status :: nat
  json :: body

text \<open>
  What awaiting \<open>fetchWithTimeout\<close> gives: the response, with its \<open>ok\<close> flag and its
  body, or the exception of a rejected \<open>fetch\<close> (an \<open>AbortError\<close> when the timer of 15
  seconds fired first).
\<close>

record response =
  ok :: bool
  stream :: "byte list list option"

datatype fetched = Resolved response | Rejected error

text \<open>
  The runtime: \<open>JSON.parse\<close> (\<open>None\<close> for a SyntaxError), the part of \<open>Number\<close> on
  strings, arrays and objects, and the text that a regular expression tests when its
  argument is a number, an array or an object.
\<close>

record runtime =
  JSON_parse :: "ustring \<Rightarrow> jsval option"
  ToNumber :: "jsval \<Rightarrow> error + jsnum"
  ToString :: "jsval \<Rightarrow> error + string"

definition alnum :: "char \<Rightarrow> bool" where
  "alnum c = (let n = (of_char c :: nat) in
               (97 \<le> n \<and> n \<le> 122) \<or> (65 \<le> n \<and> n \<le> 90) \<or> (48 \<le> n \<and> n \<le> 57))"

text \<open>Line 52: \<open>/^[a-zA-Z0-9]+$/.test(tournamentId)\<close>, on a truthy value.\<close>

definition id_test :: "runtime \<Rightarrow> jsval \<Rightarrow> error + bool" where
  "id_test rt v =
     (case v of
        JStr s \<Rightarrow> Inr (s \<noteq> [] \<and> list_all alnum s)
      | JBool b \<Rightarrow> Inr True
      | _ \<Rightarrow> (case ToString rt v of Inl e \<Rightarrow> Inl e
              | Inr s \<Rightarrow> Inr (s \<noteq> [] \<and> list_all alnum s)))"

text \<open>The whole text of a body, as \<open>new TextDecoder().decode(bytes)\<close> reads it.\<close>

definition decode_all :: "byte list \<Rightarrow> ustring" where
  "decode_all bs = (let (d, t) = decode new_decoder bs in t @ decode_end d)"

text \<open>Line 60: \<open>tRes.json()\<close>.\<close>

definition Response_json :: "runtime \<Rightarrow> response \<Rightarrow> error + jsval" where
  "Response_json rt r =
     (case JSON_parse rt (decode_all (case stream r of None \<Rightarrow> [] | Some cs \<Rightarrow> concat cs)) of
        None \<Rightarrow> Inl SyntaxError | Some v \<Rightarrow> Inr v)"

text \<open>Lines 114-146: after the stream.\<close>

definition respond :: "jsval \<Rightarrow> totals \<Rightarrow> error + reply" where
  "respond tournament st =
     (if gameCount st = 0 then
        Inr \<lparr>status = 404, json = ErrorText (''Aucune partie trouv'' @ [CHR 0xE9] @ ''e.'')\<rparr>
      else
        (let metrics = metrics_of (ps st) in
         if length (pool metrics) = 0 then
           Inr \<lparr>status = 400, json = ErrorText (''Aucune partie analys'' @ [CHR 0xE9] @ ''e.'')\<rparr>
         else
           (case dot tournament ''id'' of Inl e \<Rightarrow> Inl e
            | Inr tid \<Rightarrow>
                Inr \<lparr>status = 200, json = Payload
                  \<lparr>p_tournamentId = tid,
                   p_tournamentName =
                     (if truthy (get tournament ''name'') then get tournament ''name''
                      else if truthy (get tournament ''fullName'') then get tournament ''fullName''
                      else JStr ''Tournoi''),
                   p_playerCount = get tournament ''nbPlayers'',
                   p_gameCount = gameCount st,
                   p_analyzedByLichess = lichessCount st,
                   p_totalAnalyzed = fullyAnalyzedCount st,
                   p_skippedShortGames = shortCount st,
                   p_unanalyzedGames = unanalyzedCount st,
                   p_eligiblePlayers = length (pool metrics),
                   p_totalPlayersWithAnalysis = length (withAnalysis metrics),
                   p_playerMetrics = metrics\<rparr>\<rparr>)))"

text \<open>
  Lines 50-146, the \<open>try\<close> block. \<open>req\<close> is \<open>req.body\<close>; \<open>tRes\<close> and \<open>gRes\<close> are what the
  two calls of \<open>fetchWithTimeout\<close> give (the second is made only when the first response
  is read).
\<close>

definition try_block :: "runtime \<Rightarrow> jsval \<Rightarrow> fetched \<Rightarrow> fetched \<Rightarrow> error + reply" where
  "try_block rt req tRes gRes =
     (case dot req ''tournamentId'' of Inl e \<Rightarrow> Inl e
      | Inr tournamentId \<Rightarrow>
     (let type = get req ''type'' in
      if \<not> truthy tournamentId \<or> \<not> truthy type then
        Inr \<lparr>status = 400, json = ErrorText ''tournamentId et type requis''\<rparr>
      else
     (case id_test rt tournamentId of Inl e \<Rightarrow> Inl e
      | Inr matches \<Rightarrow>
      if \<not> matches then Inr \<lparr>status = 400, json = ErrorText ''tournamentId invalide''\<rparr>
      else if type \<noteq> JStr ''swiss'' \<and> type \<noteq> JStr ''arena'' then
        Inr \<lparr>status = 400, json = ErrorText ''type invalide''\<rparr>
      else
     (case tRes of Rejected e \<Rightarrow> Inl e
      | Resolved tr \<Rightarrow>
      if \<not> ok tr then Inr \<lparr>status = 404, json = ErrorText ''Tournoi introuvable.''\<rparr>
      else
     (case Response_json rt tr of Inl e \<Rightarrow> Inl e
      | Inr tournament \<Rightarrow>
     (case gRes of Rejected e \<Rightarrow> Inl e
      | Resolved gr \<Rightarrow>
      if \<not> ok gr then
        Inr \<lparr>status = 500,
             json = ErrorText (''Impossible de r'' @ [CHR 0xE9] @ ''cup'' @ [CHR 0xE9]
                                 @ ''rer les parties.'')\<rparr>
      else
     (case forEachNdjson (JSON_parse rt) (onItem (ToNumber rt)) (stream gr) start of
        Inl e \<Rightarrow> Inl e
      | Inr st \<Rightarrow> respond tournament st)))))))"

text \<open>Lines 147-151, the \<open>catch\<close>.\<close>

definition catch :: "error \<Rightarrow> reply" where
  "catch e =
     (if e = AbortError then
        \<lparr>status = 504,
         json = ErrorText (''Lichess ne r'' @ [CHR 0xE9] @ ''pond pas '' @ [CHR 0xE0]
                             @ '' temps.'')\<rparr>
      else \<lparr>status = 500, json = ErrorMessage e\<rparr>)"

definition api_analyze :: "runtime \<Rightarrow> jsval \<Rightarrow> fetched \<Rightarrow> fetched \<Rightarrow> reply" where
  "api_analyze rt req tRes gRes =
     (case try_block rt req tRes gRes of Inl e \<Rightarrow> catch e | Inr r \<Rightarrow> r)"

section \<open>The aggregation loop of src/unnamed/part\_000 (lines 41-50)\<close>

text \<open>
  This file holds the same handler without the reader and without the coercions: it adds
  the fields of an analysis to the sums with \<open>+=\<close> as they are, so a sum is any value.
\<close>

text \<open>\<open>ToNumber\<close> where it needs no conversion of a string or an object.\<close>

fun prim_num :: "jsval \<Rightarrow> jsnum option" where
  "prim_num JUndefined = Some NaN"
| "prim_num JNull = Some (Fin 0)"
| "prim_num (JBool b) = Some (Fin (if b then 1 else 0))"
| "prim_num (JNum n) = Some n"
| "prim_num v = None"

text \<open>
  The operator \<open>+\<close>: the sum of two numbers when neither operand is a string, an array or
  an object; what it does otherwise (a concatenation of strings, or a TypeError) is the
  runtime's, the parameter \<open>cat\<close>.
\<close>

definition js_plus :: "(jsval \<Rightarrow> jsval \<Rightarrow> error + jsval) \<Rightarrow> jsval \<Rightarrow> jsval \<Rightarrow> error + jsval" where
  "js_plus cat x y =
     (case prim_num x of None \<Rightarrow> cat x y
      | Some a \<Rightarrow> (case prim_num y of None \<Rightarrow> cat x y
                   | Some b \<Rightarrow> Inr (JNum (num_add a b))))"

text \<open>Line 48: the body of \<open>if (a)\<close>.\<close>

definition add_analysis_part000 :: "(jsval \<Rightarrow> jsval \<Rightarrow> error + jsval) \<Rightarrow> jsval
    \<Rightarrow> jsval player \<Rightarrow> error + jsval player" where
  "add_analysis_part000 cat a s =
     (case js_plus cat (inaccuracies s) (get a ''inaccuracy'') of Inl e \<Rightarrow> Inl e
      | Inr i \<Rightarrow>
     (case js_plus cat (mistakes s) (get a ''mistake'') of Inl e \<Rightarrow> Inl e
      | Inr m \<Rightarrow>
     (case js_plus cat (blunders s) (get a ''blunder'') of Inl e \<Rightarrow> Inl e
      | Inr b \<Rightarrow>
        let s1 = s\<lparr>inaccuracies := i, mistakes := m, blunders := b\<rparr>;
            s2 = (if \<not> nullish (get a ''accuracy'')
                  then s1\<lparr>accuracies := accuracies s1 @ [get a ''accuracy'']\<rparr> else s1)
        in Inr (s2\<lparr>analyzedGames := analyzedGames s2 + 1\<rparr>))))"

text \<open>Lines 46-48: what one side of a game does to its accumulator.\<close>

definition update_player_part000 :: "(jsval \<Rightarrow> jsval \<Rightarrow> error + jsval) \<Rightarrow> jsval
    \<Rightarrow> jsval player \<Rightarrow> error + jsval player" where
  "update_player_part000 cat pc s =
     (let s1 = s\<lparr>gamesPlayed := gamesPlayed s + 1\<rparr>;
          a = opt pc ''analysis''
      in if truthy a then add_analysis_part000 cat a s1 else Inr s1)"

text \<open>Line 45: the accumulator stored for a new name.\<close>

definition new_player_part000 :: "jsval \<Rightarrow> jsval \<Rightarrow> jsval player" where
  "new_player_part000 name pc =
     \<lparr>username = name, inaccuracies = JNum (Fin 0), mistakes = JNum (Fin 0),
      blunders = JNum (Fin 0), gamesPlayed = 0, analyzedGames = 0, team = opt pc ''team'',
      accuracies = []\<rparr>"

text \<open>Lines 43-49: one turn of the inner loop.\<close>

definition side_part000 :: "(jsval \<Rightarrow> jsval \<Rightarrow> error + jsval) \<Rightarrow> string \<Rightarrow> jsval
    \<Rightarrow> (jsval \<times> jsval player) list \<Rightarrow> error + (jsval \<times> jsval player) list" where
  "side_part000 cat c g m =
     (case dot g ''players'' of Inl e \<Rightarrow> Inl e
      | Inr players \<Rightarrow>
     (let pc = opt players c;
          name = side_name g c;
          m1 = (if Map_index name m = None then m @ [(name, new_player_part000 name pc)] else m);
          i = (case Map_index name m of None \<Rightarrow> length m | Some j \<Rightarrow> j)
      in case update_player_part000 cat pc (snd (m1 ! i)) of Inl e \<Rightarrow> Inl e
         | Inr s \<Rightarrow> Inr (m1[i := (fst (m1 ! i), s)])))"

text \<open>Lines 42-50: the loop over the games, from the empty \<open>Map\<close>.\<close>

definition game_part000 :: "(jsval \<Rightarrow> jsval \<Rightarrow> error + jsval) \<Rightarrow> jsval
    \<Rightarrow> (jsval \<times> jsval player) list \<Rightarrow> error + (jsval \<times> jsval player) list" where
  "game_part000 cat g m =
     (case side_part000 cat ''white'' g m of Inl e \<Rightarrow> Inl e
      | Inr m1 \<Rightarrow> side_part000 cat ''black'' g m1)"

definition aggregate_part000 :: "(jsval \<Rightarrow> jsval \<Rightarrow> error + jsval) \<Rightarrow> jsval list
    \<Rightarrow> error + (jsval \<times> jsval player) list" where
  "aggregate_part000 cat games = deliver (game_part000 cat) games []"

section \<open>Notions used in the statements\<close>

text \<open>Lines 77-80: a side has an analysis when the property is neither \<open>null\<close> nor missing.\<close>

definition hasAnalysis :: "jsval \<Rightarrow> string \<Rightarrow> bool" where
  "hasAnalysis g c = (\<not> nullish (opt (opt (get g ''players'') c) ''analysis''))"

text \<open>Line 86, \<open>isShortGame\<close>, for a move count \<open>mc\<close>.\<close>

definition isShort :: "jsval \<Rightarrow> nat \<Rightarrow> bool" where
  "isShort g mc = (mc < 10 \<or> get g ''status'' = JStr ''aborted'' \<or> get g ''status'' = JStr ''noStart'')"

text \<open>
  The moves of a move list: its maximal runs of characters other than the blank, that is,
  the pieces between the blanks that are not empty.
\<close>

definition tokens :: "string \<Rightarrow> string list" where
  "tokens s = filter (\<lambda>t. t \<noteq> []) (str_split (CHR '' '') s)"

text \<open>How many sides of the games \<open>gs\<close> are charged to the key \<open>k\<close>.\<close>

definition occurrences :: "jsval \<Rightarrow> jsval list \<Rightarrow> nat" where
  "occurrences k gs =
     sum_list (map (\<lambda>g. (if side_name g ''white'' = k then 1 else 0)
                       + (if side_name g ''black'' = k then 1 else 0)) gs)"

text \<open>The games played that the entries of key \<open>k\<close> hold, and those of all entries.\<close>

definition played :: "jsval \<Rightarrow> players \<Rightarrow> nat" where
  "played k m = sum_list (map (\<lambda>e. if fst e = k then gamesPlayed (snd e) else 0) m)"

definition total_played :: "players \<Rightarrow> nat" where
  "total_played m = sum_list (map (\<lambda>e. gamesPlayed (snd e)) m)"

text \<open>
  The error of one rounding to a double is at most \<open>eps\<close> times the value, plus \<open>tiny\<close>
  (half the spacing of the smallest doubles).
\<close>

definition eps :: rat where
  "eps = 1 / 2 ^ 53"

definition tiny :: rat where
  "tiny = 1 / 2 ^ 1075"

text \<open>
  What the roundings of line 118 add to the distance between the accuracy and the mean of the
  samples \<open>qs\<close>: the sum takes one rounding for each sample, the division by the length
  and the product by ten one each. For at most a thousand samples between 0 and 100 it is
  below \<open>1 / 10 ^ 10\<close>.
\<close>

definition slack :: "rat list \<Rightarrow> rat" where
  "slack qs = ((1 + eps) ^ (length qs + 2) - 1) * (sum_list (map abs qs) / of_nat (length qs))
              + ((1 + eps) ^ (length qs + 2) + 2) * tiny"

text \<open>
  The reader in one piece: the whole text of the stream is cut at every newline, each piece
  is trimmed, the empty ones are dropped, and the others are parsed and handed to the
  callback in order. The last piece is what follows the last newline.
\<close>

definition item :: "(ustring \<Rightarrow> 'g option) \<Rightarrow> ('g \<Rightarrow> 's \<Rightarrow> error + 's) \<Rightarrow> ustring \<Rightarrow> 's \<Rightarrow> error + 's" where
  "item parse f line st = (case parse line of None \<Rightarrow> Inl SyntaxError | Some g \<Rightarrow> f g st)"

definition nonblank :: "ustring list \<Rightarrow> ustring list" where
  "nonblank ls = filter (\<lambda>l. l \<noteq> []) (map trim ls)"

definition records :: "ustring \<Rightarrow> ustring list" where
  "records t = nonblank (str_split newline t)"

text \<open>
  The request passes the three checks of lines 51-53; and it does not, without an exception.
\<close>

definition valid :: "runtime \<Rightarrow> jsval \<Rightarrow> bool" where
  "valid rt req =
     (\<not> nullish req \<and> truthy (get req ''tournamentId'') \<and> truthy (get req ''type'') \<and>
      id_test rt (get req ''tournamentId'') = Inr True \<and>
      (get req ''type'' = JStr ''swiss'' \<or> get req ''type'' = JStr ''arena''))"

definition invalid :: "runtime \<Rightarrow> jsval \<Rightarrow> bool" where
  "invalid rt req =
     (\<not> nullish req \<and>
      (\<not> truthy (get req ''tournamentId'') \<or> \<not> truthy (get req ''type'') \<or>
       id_test rt (get req ''tournamentId'') = Inr False \<or>
       (id_test rt (get req ''tournamentId'') = Inr True \<and>
        get req ''type'' \<noteq> JStr ''swiss'' \<and> get req ''type'' \<noteq> JStr ''arena'')))"

text \<open>
  The request passes the checks and the first response is \<open>ok\<close> and parses to \<open>tournament\<close>.
\<close>

definition accepted :: "runtime \<Rightarrow> jsval \<Rightarrow> fetched \<Rightarrow> jsval \<Rightarrow> bool" where
  "accepted rt req tRes tournament =
     (valid rt req \<and>
      (case tRes of Rejected e \<Rightarrow> False
       | Resolved tr \<Rightarrow> ok tr \<and> Response_json rt tr = Inr tournament))"

text \<open>Line 75: the reader over the body of the second response, with the callback.\<close>

definition games :: "runtime \<Rightarrow> response \<Rightarrow> error + totals" where
  "games rt gr = forEachNdjson (JSON_parse rt) (onItem (ToNumber rt)) (stream gr) start"

text \<open>The two replies of lines 114 and 125.\<close>

definition no_games :: reply where
  "no_games = \<lparr>status = 404, json = ErrorText (''Aucune partie trouv'' @ [CHR 0xE9] @ ''e.'')\<rparr>"

definition no_analysis :: reply where
  "no_analysis = \<lparr>status = 400, json = ErrorText (''Aucune partie analys'' @ [CHR 0xE9] @ ''e.'')\<rparr>"

section \<open>The inputs of the examples\<close>

text \<open>
  Scenario C: \<open>{"status":"aborted","moves":"e4 e5 Nf3","players":{"white":{"user":
  {"name":"ann"}},"black":{"user":{"name":"bob"}}}}\<close>.
\<close>

definition scenario_C :: jsval where
  "scenario_C = JObj [(''status'', JStr ''aborted''), (''moves'', JStr ''e4 e5 Nf3''),
     (''players'', JObj [(''white'', JObj [(''user'', JObj [(''name'', JStr ''ann'')])]),
                         (''black'', JObj [(''user'', JObj [(''name'', JStr ''bob'')])])])]"

text \<open>
  A game of nine moves with two blanks before the last one, no side analyzed:
  \<open>{"status":"mate","moves":"e4 e5 Nf3 Nc6 Bb5 a6 Ba4 Nf6  O-O","players":{"white":{"user":
  {"name":"ann"}},"black":{"user":{"name":"bob"}}}}\<close>.
\<close>

definition double_blank :: jsval where
  "double_blank = JObj [(''status'', JStr ''mate''),
     (''moves'', JStr ''e4 e5 Nf3 Nc6 Bb5 a6 Ba4 Nf6  O-O''),
     (''players'', JObj [(''white'', JObj [(''user'', JObj [(''name'', JStr ''ann'')])]),
                         (''black'', JObj [(''user'', JObj [(''name'', JStr ''bob'')])])])]"

text \<open>A game whose white name is the empty string.\<close>

definition nameless :: jsval where
  "nameless = JObj [(''players'',
     JObj [(''white'', JObj [(''user'', JObj [(''name'', JStr '''')])]),
           (''black'', JObj [(''user'', JObj [(''name'', JStr ''bob'')])])])]"

text \<open>Scenario E: an accumulator with the samples 87.3, 91.0 and 88.65.\<close>

definition scenario_E :: "jsnum player" where
  "scenario_E = \<lparr>username = JStr ''ann'', inaccuracies = Fin 3, mistakes = Fin 1, blunders = Fin 0,
     gamesPlayed = 3, analyzedGames = 3, team = JUndefined,
     accuracies = [double (873 / 10), double 91, double (8865 / 100)]\<rparr>"

text \<open>
  An accumulator with one sample, read from the text \<open>0.34999999999999999\<close>: the double
  nearest to that decimal, which is also the double nearest to 0.35 and lies below it.
\<close>

definition just_below :: "jsnum player" where
  "just_below = \<lparr>username = JStr ''ann'', inaccuracies = Fin 0, mistakes = Fin 0, blunders = Fin 0,
     gamesPlayed = 1, analyzedGames = 1, team = JUndefined,
     accuracies = [double (34999999999999999 / 100000000000000000)]\<rparr>"

text \<open>Scenario B: a player with three games, all analyzed.\<close>

definition three_of_three :: metric where
  "three_of_three = \<lparr>username = JStr ''ann'', inaccuracies = Fin 3, mistakes = Fin 1, blunders = Fin 0,
     gamesPlayed = 3, analyzedGames = 3, team = JUndefined, accuracies = [], accuracy = Fin 0\<rparr>"

text \<open>
  A runtime for the examples. Its \<open>JSON.parse\<close> reads the text \<open>{}\<close> as the empty object
  and throws on every other text; the examples give it \<open>{}\<close> and \<open>{\<close> only, where
  \<open>JSON.parse\<close> does the same. Its \<open>Number\<close> and its conversion to a string are never
  called there.
\<close>

definition a_runtime :: runtime where
  "a_runtime = \<lparr>JSON_parse = (\<lambda>l. if l = [0x7B, 0x7D] then Some (JObj []) else None),
                 ToNumber = (\<lambda>v. Inr NaN), ToString = (\<lambda>v. Inl TypeError)\<rparr>"

text \<open>The body \<open>{"tournamentId":"abc123","type":"swiss"}\<close> of a request.\<close>

definition a_request :: jsval where
  "a_request = JObj [(''tournamentId'', JStr ''abc123''), (''type'', JStr ''swiss'')]"

text \<open>A first response that is \<open>ok\<close>, with the body \<open>{}\<close>.\<close>

definition found :: fetched where
  "found = Resolved \<lparr>ok = True, stream = Some [[0x7B, 0x7D]]\<rparr>"

text \<open>
  Two games of \<open>ann\<close> against \<open>bob\<close>: in the first no side has a team, in the second
  white has the team \<open>t1\<close>.
\<close>

definition untagged :: jsval where
  "untagged = JObj [(''players'',
     JObj [(''white'', JObj [(''user'', JObj [(''name'', JStr ''ann'')])]),
           (''black'', JObj [(''user'', JObj [(''name'', JStr ''bob'')])])])]"

definition tagged :: jsval where
  "tagged = JObj [(''players'',
     JObj [(''white'', JObj [(''user'', JObj [(''name'', JStr ''ann'')]), (''team'', JStr ''t1'')]),
           (''black'', JObj [(''user'', JObj [(''name'', JStr ''bob'')])])])]"

text \<open>
  A game whose white side has the analysis \<open>{"accuracy":90}\<close>, without the three counts.
\<close>

definition bare_analysis :: jsval where
  "bare_analysis = JObj [(''players'',
     JObj [(''white'', JObj [(''user'', JObj [(''name'', JStr ''ann'')]),
                             (''analysis'', JObj [(''accuracy'', JNum (Fin 90))])]),
           (''black'', JObj [(''user'', JObj [(''name'', JStr ''bob'')])])])]"

text \<open>
  A game whose white side has the analysis \<open>{"inaccuracy":n}\<close>; \<open>JSON.parse\<close> reads
  \<open>1e999\<close> as \<open>Infinity\<close> and \<open>-1e999\<close> as \<open>-Infinity\<close>.
\<close>

definition overflow :: "jsnum \<Rightarrow> jsval" where
  "overflow n = JObj [(''players'',
     JObj [(''white'', JObj [(''user'', JObj [(''name'', JStr ''ann'')]),
                             (''analysis'', JObj [(''inaccuracy'', JNum n)])])])]"

section \<open>Lemmas on the rounding\<close>

lemma bits_0 [simp]: "bits 0 = 0"
  by (simp add: bits.simps)

lemma bits_pos: "0 < n \<Longrightarrow> bits n = Suc (bits (n div 2))"
  by (subst bits.simps) simp

lemma bits_numeral [simp]: "bits (numeral k) = Suc (bits (numeral k div 2))"
  by (rule bits_pos) simp

lemma bits_1 [simp]: "bits (Suc 0) = Suc 0"
  by (simp add: bits_pos)

lemma floor_rat_numeral [simp]: "\<lfloor>numeral a / numeral b :: rat\<rfloor> = numeral a div numeral b"
  using floor_divide_of_int_eq[of "numeral a" "numeral b", where ?'a = rat] by simp

lemma ceiling_rat_numeral [simp]: "\<lceil>numeral a / numeral b :: rat\<rceil> = - (- numeral a div numeral b)"
  using ceiling_divide_eq_div[of "numeral a" "numeral b"] by simp

lemmas double_defs = double_def floor_log2_def rne_def Let_def

lemma double_0 [simp]: "double 0 = Fin 0"
  by (simp add: double_def)

lemma bits_bounds: "0 < n \<Longrightarrow> 2 ^ (bits n - 1) \<le> n \<and> n < 2 ^ bits n"
proof (induction n rule: bits.induct)
  case (1 n)
  show ?case
  proof (cases "n div 2 = 0")
    case True
    with "1.prems" have "n = 1" by (cases n) auto
    then show ?thesis by simp
  next
    case False
    with "1.IH" "1.prems" have ih: "2 ^ (bits (n div 2) - 1) \<le> n div 2" "n div 2 < 2 ^ bits (n div 2)"
      by auto
    from False have bp: "0 < bits (n div 2)" by (simp add: bits_pos)
    have b: "bits n = Suc (bits (n div 2))" using "1.prems" by (rule bits_pos)
    have "2 ^ (bits n - 1) = 2 * 2 ^ (bits (n div 2) - 1)"
      using bp by (simp add: b flip: power_Suc)
    also have "\<dots> \<le> 2 * (n div 2)" using ih(1) by simp
    also have "\<dots> \<le> n" by simp
    finally have lo: "2 ^ (bits n - 1) \<le> n" .
    have "n < 2 * (n div 2) + 2" by linarith
    also have "\<dots> \<le> 2 * 2 ^ bits (n div 2)" using ih(2) by simp
    finally have "n < 2 ^ bits n" by (simp add: b)
    with lo show ?thesis ..
  qed
qed

lemma floor_log2_bounds:
  assumes "0 < x"
  shows "power_int 2 (floor_log2 x) \<le> x \<and> x < power_int 2 (floor_log2 x + 1)"
proof (cases "1 \<le> x")
  case True
  define m where "m = nat \<lfloor>x\<rfloor>"
  from True have m: "0 < m" "of_nat m \<le> x" "x < of_nat m + 1"
    unfolding m_def by (simp_all add: floor_less_iff) linarith+
  from bits_bounds[OF m(1)] have b: "2 ^ (bits m - 1) \<le> m" "m < 2 ^ bits m" by auto
  from m(1) have bp: "0 < bits m" by (simp add: bits_pos)
  have e: "floor_log2 x = int (bits m - 1)" "floor_log2 x + 1 = int (bits m)"
    using True bp by (simp_all add: floor_log2_def m_def)
  have p1: "power_int (2::rat) (floor_log2 x) = 2 ^ (bits m - 1)"
    by (simp only: e(1) power_int_of_nat)
  have p2: "power_int (2::rat) (floor_log2 x + 1) = 2 ^ bits m"
    by (simp only: e(2) power_int_of_nat)
  have "(2::rat) ^ (bits m - 1) \<le> of_nat m"
    using b(1) by (metis of_nat_le_iff of_nat_numeral of_nat_power)
  with m(2) have lo: "(2::rat) ^ (bits m - 1) \<le> x" by linarith
  have "m + 1 \<le> 2 ^ bits m" using b(2) by simp
  then have "(of_nat (m + 1) :: rat) \<le> of_nat (2 ^ bits m)" by (simp only: of_nat_le_iff)
  then have "(of_nat m :: rat) + 1 \<le> 2 ^ bits m" by simp
  with m(3) have hi: "x < 2 ^ bits m" by linarith
  from lo hi show ?thesis by (simp only: p1 p2 simp_thms)
next
  case False
  define M where "M = \<lceil>1 / x\<rceil>"
  from False assms have y: "1 < 1 / x" by simp
  then have M2: "2 \<le> M" unfolding M_def by (simp add: le_ceiling_iff) 
  have My: "1 / x \<le> of_int M" "of_int M - 1 < 1 / x"
    unfolding M_def by linarith+
  define k where "k = bits (nat (M - 1))"
  from M2 have pos: "0 < nat (M - 1)" by simp
  from bits_bounds[OF pos] have b: "2 ^ (k - 1) \<le> nat (M - 1)" "nat (M - 1) < 2 ^ k"
    unfolding k_def by auto
  from pos have kp: "0 < k" unfolding k_def by (simp add: bits_pos)
  have e: "floor_log2 x = - int k"
    using False by (simp add: floor_log2_def M_def k_def)
  have "M \<le> 2 ^ k"
  proof -
    from b(2) have "int (nat (M - 1)) < int (2 ^ k)" by (simp only: of_nat_less_iff)
    with M2 show ?thesis by simp
  qed
  then have "(of_int M :: rat) \<le> 2 ^ k" by (metis of_int_le_iff of_int_numeral of_int_power)
  with My(1) have "1 / x \<le> 2 ^ k" by linarith
  with assms have lo: "1 / 2 ^ k \<le> x"
    by (simp add: field_simps)
  have "2 ^ (k - 1) \<le> M - 1"
  proof -
    from b(1) have "int (2 ^ (k - 1)) \<le> int (nat (M - 1))" by (simp only: of_nat_le_iff)
    with M2 show ?thesis by simp
  qed
  then have "(2::rat) ^ (k - 1) \<le> of_int M - 1"
    by (metis of_int_le_iff of_int_numeral of_int_power of_int_diff of_int_1)
  with My(2) have "2 ^ (k - 1) < 1 / x" by linarith
  with assms have hi: "x < 1 / 2 ^ (k - 1)"
    by (simp add: field_simps)
  have p1: "power_int (2::rat) (floor_log2 x) = 1 / 2 ^ k"
    by (simp add: e power_int_minus field_simps)
  have "floor_log2 x + 1 = - int (k - 1)" using kp by (simp add: e)
  then have p2: "power_int (2::rat) (floor_log2 x + 1) = 1 / 2 ^ (k - 1)"
    by (simp only: power_int_minus power_int_of_nat) (simp add: field_simps)
  from lo hi show ?thesis by (simp only: p1 p2 simp_thms)
qed

lemma rne_error: "\<bar>of_int (rne y) - y\<bar> \<le> 1 / 2"
proof -
  have "of_int \<lfloor>y\<rfloor> \<le> y" "y < of_int \<lfloor>y\<rfloor> + 1" by linarith+
  then show ?thesis
    by (auto simp: rne_def Let_def abs_le_iff)
qed

lemma rne_ge: "of_int n \<le> y \<Longrightarrow> n \<le> rne y"
proof -
  assume "of_int n \<le> y"
  then have "n \<le> \<lfloor>y\<rfloor>" by (simp add: le_floor_iff)
  then show ?thesis by (auto simp: rne_def Let_def)
qed

lemma rne_le: "y \<le> of_int n \<Longrightarrow> rne y \<le> n"
proof -
  assume a: "y \<le> of_int n"
  show ?thesis
  proof (cases "y = of_int n")
    case True
    then show ?thesis by (simp add: rne_def Let_def)
  next
    case False
    with a have "y < of_int n" by simp
    then have "\<lfloor>y\<rfloor> < n" by (simp add: floor_less_iff)
    then show ?thesis by (auto simp: rne_def Let_def)
  qed
qed

lemma double_value:
  assumes "x \<noteq> 0"
  shows "\<exists>y. 0 \<le> y \<and> \<bar>y - \<bar>x\<bar>\<bar> \<le> \<bar>x\<bar> / 2 ^ 53 + 1 / 2 ^ 1075 \<and>
    double x = (if 2 ^ 1024 \<le> y then (if 0 < x then PInf else NInf)
                else Fin (if 0 < x then y else - y))"
proof -
  define e where "e = max (floor_log2 \<bar>x\<bar>) (- 1022)"
  define q :: rat where "q = power_int 2 (e - 52)"
  define n where "n = rne (\<bar>x\<bar> / q)"
  have qpos: "0 < q" unfolding q_def by simp
  have "of_int 0 \<le> \<bar>x\<bar> / q" using qpos by simp
  then have "0 \<le> n" unfolding n_def by (rule rne_ge)
  then have y0: "0 \<le> of_int n * q" using qpos by simp
  have "\<bar>of_int n - \<bar>x\<bar> / q\<bar> \<le> 1 / 2" unfolding n_def by (rule rne_error)
  then have "\<bar>of_int n - \<bar>x\<bar> / q\<bar> * q \<le> 1 / 2 * q"
    using qpos by (simp only: mult_le_cancel_right_pos)
  moreover have "\<bar>of_int n - \<bar>x\<bar> / q\<bar> * q = \<bar>of_int n * q - \<bar>x\<bar>\<bar>"
    using qpos by (simp add: abs_mult_pos[symmetric] field_simps)
  ultimately have d: "\<bar>of_int n * q - \<bar>x\<bar>\<bar> \<le> q / 2" by simp
  have "q / 2 \<le> \<bar>x\<bar> / 2 ^ 53 + 1 / 2 ^ 1075"
  proof (cases "- 1022 \<le> floor_log2 \<bar>x\<bar>")
    case True
    then have "e = floor_log2 \<bar>x\<bar>" by (simp add: e_def)
    then have "q = power_int 2 (floor_log2 \<bar>x\<bar>) / 2 ^ 52"
      by (simp add: q_def power_int_diff)
    moreover have "power_int 2 (floor_log2 \<bar>x\<bar>) \<le> \<bar>x\<bar>"
      using floor_log2_bounds[of "\<bar>x\<bar>"] assms by simp
    ultimately have "q \<le> \<bar>x\<bar> / 2 ^ 52" by (simp add: divide_right_mono)
    then have "q / 2 \<le> \<bar>x\<bar> / 2 ^ 53" by simp
    then show ?thesis by (rule order_trans) simp
  next
    case False
    then have "e = - 1022" by (simp add: e_def)
    then have "q = 1 / 2 ^ 1074" by (simp add: q_def power_int_minus field_simps)
    then have "q / 2 = 1 / 2 ^ 1075" by simp
    then show ?thesis by simp
  qed
  with d have b: "\<bar>of_int n * q - \<bar>x\<bar>\<bar> \<le> \<bar>x\<bar> / 2 ^ 53 + 1 / 2 ^ 1075" by linarith
  have v: "double x = (if 2 ^ 1024 \<le> of_int n * q then (if 0 < x then PInf else NInf)
                else Fin (if 0 < x then of_int n * q else - (of_int n * q)))"
    unfolding n_def q_def e_def double_def Let_def using assms by (simp only: if_False)
  from y0 b v show ?thesis by blast
qed

lemma double_error:
  assumes "double x = Fin y"
  shows "\<bar>y - x\<bar> \<le> \<bar>x\<bar> / 2 ^ 53 + 1 / 2 ^ 1075"
proof (cases "x = 0")
  case True
  with assms show ?thesis by (simp add: double_def)
next
  case False
  from double_value[OF False] obtain z where z: "0 \<le> z"
    "\<bar>z - \<bar>x\<bar>\<bar> \<le> \<bar>x\<bar> / 2 ^ 53 + 1 / 2 ^ 1075"
    "double x = (if 2 ^ 1024 \<le> z then (if 0 < x then PInf else NInf)
                else Fin (if 0 < x then z else - z))" by blast
  from z(3) assms have y: "y = (if 0 < x then z else - z)"
    by (auto split: if_splits)
  have "\<bar>y - x\<bar> = \<bar>z - \<bar>x\<bar>\<bar>"
    using False by (cases "0 < x") (simp_all add: y)
  with z(2) show ?thesis by simp
qed

lemma double_Fin:
  assumes "\<bar>x\<bar> \<le> 2 ^ 1000"
  shows "\<exists>y. double x = Fin y \<and> \<bar>y\<bar> \<le> 2 * \<bar>x\<bar> + 1"
proof (cases "x = 0")
  case True
  then show ?thesis by simp
next
  case False
  from double_value[OF False] obtain z where z: "0 \<le> z"
    "\<bar>z - \<bar>x\<bar>\<bar> \<le> \<bar>x\<bar> / 2 ^ 53 + 1 / 2 ^ 1075"
    "double x = (if 2 ^ 1024 \<le> z then (if 0 < x then PInf else NInf)
                else Fin (if 0 < x then z else - z))" by blast
  have "\<bar>x\<bar> / 2 ^ 53 \<le> \<bar>x\<bar>" by (simp add: field_simps)
  moreover have "(1::rat) / 2 ^ 1075 \<le> 1" by simp
  ultimately have b: "z \<le> 2 * \<bar>x\<bar> + 1" using z(2) by linarith
  with assms have "z \<le> 2 * 2 ^ 1000 + 1" by linarith
  also have "\<dots> < (2 ^ 1024 :: rat)" by simp
  finally have "\<not> 2 ^ 1024 \<le> z" by simp
  with z(3) have "double x = Fin (if 0 < x then z else - z)" by simp
  moreover have "\<bar>if 0 < x then z else - z\<bar> \<le> 2 * \<bar>x\<bar> + 1" using b z(1) by auto
  ultimately show ?thesis by blast
qed

lemma double_ge_half:
  assumes "1 / 2 \<le> x"
  shows "num_ge (double x) (Fin (1 / 2))"
proof -
  from assms have x0: "0 < x" "x \<noteq> 0" "\<bar>x\<bar> = x" by simp_all
  define f where "f = floor_log2 x"
  from floor_log2_bounds[OF x0(1)] have b: "power_int 2 f \<le> x" "x < power_int 2 (f + 1)"
    by (simp_all add: f_def)
  have f1: "- 1 \<le> f"
  proof (rule ccontr)
    assume "\<not> - 1 \<le> f"
    then have "f + 1 \<le> - 1" by simp
    then have "power_int (2::rat) (f + 1) \<le> power_int 2 (- 1)" by (rule power_int_increasing) simp
    also have "\<dots> = 1 / 2" by (simp add: power_int_minus_divide)
    finally show False using b(2) assms by linarith
  qed
  then have e: "max f (- 1022) = f" by simp
  define q :: rat where "q = power_int 2 (f - 52)"
  have q0: "0 < q" by (simp add: q_def)
  have pf: "power_int (2::rat) f = 2 ^ 52 * q"
    by (simp add: q_def power_int_diff)
  define n where "n = rne (x / q)"
  have "of_int (2 ^ 52) \<le> x / q" using b(1) q0 by (simp add: pf field_simps)
  then have n52: "2 ^ 52 \<le> n" unfolding n_def by (rule rne_ge)
  then have "(of_int (2 ^ 52) :: rat) \<le> of_int n" by (simp only: of_int_le_iff)
  then have "(2 ^ 52 :: rat) * q \<le> of_int n * q" using q0 by simp
  then have h2: "power_int 2 f \<le> of_int n * q" by (simp only: pf)
  have "power_int (2::rat) (- 1) \<le> power_int 2 f" using f1 by (rule power_int_increasing) simp
  then have h1: "1 / 2 \<le> power_int (2::rat) f" by (simp add: power_int_minus_divide)
  from h1 h2 have y: "1 / 2 \<le> of_int n * q" by linarith
  have d: "double x = (if 2 ^ 1024 \<le> of_int n * q then PInf else Fin (of_int n * q))"
    using x0 by (simp add: double_def Let_def e f_def[symmetric] q_def[symmetric] n_def[symmetric])
  show ?thesis using y by (simp add: d)
qed

lemma double_lt_half:
  assumes "0 \<le> x" and "x \<le> (2 ^ 53 - 1) / 2 ^ 54"
  shows "\<exists>y. double x = Fin y \<and> y < 1 / 2"
proof (cases "x = 0")
  case True
  then show ?thesis by simp
next
  case False
  with assms have x0: "0 < x" "x \<noteq> 0" "\<bar>x\<bar> = x" by simp_all
  from assms(2) have xh: "x < 1 / 2" by simp
  define f where "f = floor_log2 x"
  from floor_log2_bounds[OF x0(1)] have b: "power_int 2 f \<le> x" by (simp add: f_def)
  have f2: "f \<le> - 2"
  proof (rule ccontr)
    assume "\<not> f \<le> - 2"
    then have "- 1 \<le> f" by simp
    then have "power_int (2::rat) (- 1) \<le> power_int 2 f" by (rule power_int_increasing) simp
    then have "1 / 2 \<le> power_int (2::rat) f" by (simp add: power_int_minus_divide)
    with b xh show False by linarith
  qed
  define e where "e = max f (- 1022)"
  have e2: "e \<le> - 2" using f2 by (simp add: e_def)
  define j where "j = nat (- 2 - e)"
  have ej: "e - 52 = - int (54 + j)" using e2 by (simp add: j_def)
  define q :: rat where "q = power_int 2 (e - 52)"
  have q: "q = 1 / 2 ^ (54 + j)"
    unfolding q_def ej by (simp only: power_int_minus_divide power_int_of_nat)
  have q0: "0 < q" by (simp add: q_def)
  define Z :: int where "Z = 2 ^ j * (2 ^ 53 - 1)"
  have Zq: "of_int Z * q = (2 ^ 53 - 1) / 2 ^ 54"
    by (simp add: Z_def q power_add)
  define n where "n = rne (x / q)"
  have "x \<le> of_int Z * q" using assms(2) by (simp only: Zq)
  then have "x / q \<le> of_int Z" using q0 by (simp add: field_simps)
  then have "n \<le> Z" unfolding n_def by (rule rne_le)
  then have "(of_int n :: rat) \<le> of_int Z" by (simp only: of_int_le_iff)
  then have "of_int n * q \<le> of_int Z * q" using q0 by simp
  then have y: "of_int n * q \<le> (2 ^ 53 - 1) / 2 ^ 54" by (simp only: Zq)
  then have y2: "of_int n * q < 1 / 2" by simp
  then have y3: "\<not> 2 ^ 1024 \<le> of_int n * q" by simp
  have d: "double x = Fin (of_int n * q)"
    using x0 y3 by (simp add: double_def Let_def f_def[symmetric] e_def[symmetric] q_def[symmetric] n_def[symmetric])
  with y2 show ?thesis by simp
qed

subsection \<open>The error of the accuracy\<close>

lemmas num_defs = num_add_def num_mul_def num_div_def

lemma eps_pos: "0 < eps" "eps \<le> 1 / 2"
  by (simp_all add: eps_def)

lemma tiny_pos: "0 < tiny"
  unfolding tiny_def by (rule divide_pos_pos) simp_all

lemma tiny_le_eps: "tiny \<le> eps"
  unfolding tiny_def eps_def
  by (rule divide_left_mono) (simp_all add: power_increasing)

lemma double_err:
  assumes "double x = Fin y"
  shows "\<bar>y - x\<bar> \<le> eps * \<bar>x\<bar> + tiny"
proof -
  have e: "\<bar>x\<bar> / 2 ^ 53 = eps * \<bar>x\<bar>" unfolding eps_def by simp
  from double_error[OF assms] have "\<bar>y - x\<bar> \<le> \<bar>x\<bar> / 2 ^ 53 + tiny"
    by (simp only: tiny_def)
  then show ?thesis by (simp only: e)
qed

lemma num_add_Fin:
  "num_add x y = Fin s \<Longrightarrow> \<exists>p q. x = Fin p \<and> y = Fin q \<and> double (p + q) = Fin s"
  by (cases x; cases y) (simp_all add: num_add_def)

lemma num_div_Fin:
  "num_div x (Fin d) = Fin s \<Longrightarrow> d \<noteq> 0 \<Longrightarrow> \<exists>p. x = Fin p \<and> double (p / d) = Fin s"
  by (cases x) (simp_all add: num_div_def split: if_splits)

lemma num_mul_Fin:
  "num_mul x (Fin d) = Fin s \<Longrightarrow> \<exists>p. x = Fin p \<and> double (p * d) = Fin s"
  by (cases x) (simp_all add: num_mul_def split: if_splits)

lemma Math_round_Fin:
  "Math_round x = Fin s \<Longrightarrow> \<exists>p. x = Fin p"
  by (cases x) simp_all

lemma Math_round_error: "Math_round (Fin t) = Fin (of_int \<lfloor>t + 1 / 2\<rfloor>) \<and> \<bar>of_int \<lfloor>t + 1 / 2\<rfloor> - t\<bar> \<le> 1 / 2"
proof -
  define k :: rat where "k = of_int \<lfloor>t + 1 / 2\<rfloor>"
  have "k \<le> t + 1 / 2" "t + 1 / 2 < k + 1"
    unfolding k_def by linarith+
  then have "\<bar>k - t\<bar> \<le> 1 / 2" by linarith
  then show ?thesis by (simp add: k_def)
qed

lemma accuracy_finalize: "accuracy (finalize p) = mean_accuracy (accuracies p)"
  by (simp add: finalize_def)

lemma foldl_num_add_finite:
  "foldl num_add x xs = Fin s \<Longrightarrow> \<exists>qs. xs = map Fin qs"
proof (induction xs arbitrary: s rule: rev_induct)
  case Nil
  then show ?case by simp
next
  case (snoc y ys)
  from snoc.prems have "num_add (foldl num_add x ys) y = Fin s" by simp
  from num_add_Fin[OF this] obtain p q where p: "foldl num_add x ys = Fin p" and q: "y = Fin q"
    by auto
  from snoc.IH[OF p] obtain qs where "ys = map Fin qs" by auto
  with q have "ys @ [y] = map Fin (qs @ [q])" by simp
  then show ?case by blast
qed

lemma mean_accuracy_finite_samples:
  assumes "xs \<noteq> []" and "mean_accuracy xs = Fin a"
  shows "\<exists>qs. xs = map Fin qs"
proof -
  from assms have "num_div (Math_round (num_mul (num_div (foldl num_add (Fin 0) xs)
      (Fin (of_nat (length xs)))) (Fin 10))) (Fin 10) = Fin a"
    by (simp add: mean_accuracy_def)
  from num_div_Fin[OF this] obtain r
    where "Math_round (num_mul (num_div (foldl num_add (Fin 0) xs) (Fin (of_nat (length xs)))) (Fin 10)) = Fin r"
    by auto
  from Math_round_Fin[OF this] obtain t
    where "num_mul (num_div (foldl num_add (Fin 0) xs) (Fin (of_nat (length xs)))) (Fin 10) = Fin t" by auto
  from num_mul_Fin[OF this] obtain m
    where m: "num_div (foldl num_add (Fin 0) xs) (Fin (of_nat (length xs))) = Fin m" by auto
  from assms(1) have "(of_nat (length xs) :: rat) \<noteq> 0" by simp
  from num_div_Fin[OF m this] obtain s where "foldl num_add (Fin 0) xs = Fin s" by auto
  then show ?thesis by (rule foldl_num_add_finite)
qed

lemma foldl_sum_error:
  "foldl num_add (Fin 0) (map Fin qs) = Fin s \<Longrightarrow>
     \<bar>s - sum_list qs\<bar> \<le> ((1 + eps) ^ length qs - 1) * sum_list (map abs qs)
                         + tiny * of_nat (length qs) * (1 + eps) ^ length qs"
proof (induction qs arbitrary: s rule: rev_induct)
  case Nil
  then show ?case by simp
next
  case (snoc x qs)
  define g where "g = 1 + eps"
  define G where "G = g ^ length qs"
  define A where "A = sum_list (map abs qs)"
  define T where "T = sum_list qs"
  define n :: rat where "n = of_nat (length qs)"
  define e where "e = (G - 1) * A + tiny * n * G"
  from snoc.prems have "num_add (foldl num_add (Fin 0) (map Fin qs)) (Fin x) = Fin s" by simp
  from num_add_Fin[OF this] obtain s' where s': "foldl num_add (Fin 0) (map Fin qs) = Fin s'"
    and d: "double (s' + x) = Fin s" by auto
  from snoc.IH[OF s'] have ih: "\<bar>s' - T\<bar> \<le> e"
    by (simp add: e_def G_def g_def A_def T_def n_def)
  have g1: "1 \<le> g" using eps_pos by (simp add: g_def)
  have G1: "1 \<le> G" unfolding G_def using g1 by (rule one_le_power)
  have A0: "0 \<le> A" unfolding A_def by (rule sum_list_nonneg) auto
  have n0: "0 \<le> n" by (simp add: n_def)
  have absT: "\<bar>T\<bar> \<le> A" unfolding T_def A_def by (rule sum_list_abs)
  have e0: "0 \<le> e" using ih by linarith
  define A' where "A' = A + \<bar>x\<bar>"
  have 1: "\<bar>s - (s' + x)\<bar> \<le> eps * \<bar>s' + x\<bar> + tiny" using d by (rule double_err)
  have 2: "\<bar>s' + x\<bar> \<le> e + A'" using ih absT unfolding A'_def by linarith
  have 3: "eps * \<bar>s' + x\<bar> \<le> eps * (e + A')"
    using 2 eps_pos(1) by (simp add: mult_left_mono)
  have 4: "eps * (e + A') = eps * e + eps * A'" by (simp add: distrib_left)
  have 5: "\<bar>s - (T + x)\<bar> \<le> (e + eps * e) + eps * A' + tiny"
    using 1 3 4 ih by linarith
  have 6: "e + eps * e = (g * G - g) * A + tiny * n * (g * G)"
    by (simp add: e_def g_def algebra_simps)
  have "0 \<le> g * (G - 1)" using g1 G1 by simp
  then have 7: "0 \<le> g * G - g" by (simp add: algebra_simps)
  have 8: "(g * G - g) * A \<le> (g * G - g) * A'"
    using 7 by (rule mult_left_mono[rotated]) (simp add: A'_def)
  have 9: "(g * G - g) * A' + eps * A' = (g * G - 1) * A'"
    by (simp add: g_def algebra_simps)
  have gG1: "1 \<le> g * G" using g1 G1 by (metis mult_mono' mult_1 zero_le_one order_trans)
  have "tiny * 1 \<le> tiny * (g * G)" using gG1 tiny_pos by (simp only: mult_le_cancel_left_pos)
  then have 10: "tiny * n * (g * G) + tiny \<le> tiny * (n + 1) * (g * G)"
    by (simp add: algebra_simps)
  from 5 6 8 9 10 have "\<bar>s - (T + x)\<bar> \<le> (g * G - 1) * A' + tiny * (n + 1) * (g * G)"
    by linarith
  then show ?case
    by (simp add: g_def G_def A'_def A_def T_def n_def algebra_simps)
qed

lemma mean_accuracy_error:
  assumes ne: "qs \<noteq> []" and acc: "mean_accuracy (map Fin qs) = Fin a"
  shows "\<exists>k::int. double (of_int k / 10) = Fin a \<and>
           \<bar>of_int k / 10 - sum_list qs / of_nat (length qs)\<bar> \<le> 1 / 20 + slack qs"
proof -
  define N :: rat where "N = of_nat (length qs)"
  define g where "g = 1 + eps"
  define G where "G = g ^ length qs"
  define A where "A = sum_list (map abs qs)"
  define T where "T = sum_list qs"
  define Am where "Am = A / N"
  define M where "M = T / N"
  have N1: "1 \<le> N" using ne unfolding N_def by (cases qs) simp_all
  then have N0: "0 < N" "N \<noteq> 0" by simp_all
  have g1: "1 \<le> g" "g \<le> 3 / 2" using eps_pos by (simp_all add: g_def)
  have G1: "1 \<le> G" unfolding G_def using g1(1) by (rule one_le_power)
  have A0: "0 \<le> A" unfolding A_def by (rule sum_list_nonneg) auto
  have Am0: "0 \<le> Am" unfolding Am_def using A0 N0 by simp
  have absT: "\<bar>T\<bar> \<le> A" unfolding T_def A_def by (rule sum_list_abs)
  have absM: "\<bar>M\<bar> \<le> Am" unfolding M_def Am_def using absT N0 by (simp add: divide_right_mono)
  from ne acc have "num_div (Math_round (num_mul (num_div (foldl num_add (Fin 0) (map Fin qs)) (Fin N)) (Fin 10))) (Fin 10)
      = Fin a"
    by (simp add: mean_accuracy_def N_def)
  from num_div_Fin[OF this] obtain r
    where r: "Math_round (num_mul (num_div (foldl num_add (Fin 0) (map Fin qs)) (Fin N)) (Fin 10)) = Fin r"
      and da: "double (r / 10) = Fin a" by auto
  from Math_round_Fin[OF r] obtain t
    where t: "num_mul (num_div (foldl num_add (Fin 0) (map Fin qs)) (Fin N)) (Fin 10) = Fin t" by auto
  from num_mul_Fin[OF t] obtain m
    where m: "num_div (foldl num_add (Fin 0) (map Fin qs)) (Fin N) = Fin m"
      and dt: "double (m * 10) = Fin t" by auto
  from num_div_Fin[OF m N0(2)] obtain s
    where s: "foldl num_add (Fin 0) (map Fin qs) = Fin s"
      and dm: "double (s / N) = Fin m" by auto
  define k where "k = \<lfloor>t + 1 / 2\<rfloor>"
  from r t Math_round_error[of t] have rk: "r = of_int k" and kt: "\<bar>of_int k - t\<bar> \<le> 1 / 2"
    by (simp_all add: k_def)
  define e where "e = (G - 1) * A + tiny * N * G"
  define e' where "e' = (G - 1) * Am + tiny * G"
  define dl where "dl = (g * G - 1) * Am + tiny * (g * G + 1)"
  define sN where "sN = s / N"
  from foldl_sum_error[OF s] have se: "\<bar>s - T\<bar> \<le> e"
    by (simp add: e_def G_def g_def A_def T_def N_def)
  have "\<bar>sN - M\<bar> = \<bar>s - T\<bar> / N"
    using N0 by (simp add: sN_def M_def diff_divide_distrib[symmetric])
  also have "\<dots> \<le> e / N" using se N0 by (simp add: divide_right_mono)
  also have "e / N = e'" using N0 by (simp add: e_def e'_def Am_def field_simps)
  finally have sM: "\<bar>sN - M\<bar> \<le> e'" .
  have e'0: "0 \<le> e'" using sM by linarith
  have 1: "\<bar>m - sN\<bar> \<le> eps * \<bar>sN\<bar> + tiny" using dm unfolding sN_def by (rule double_err)
  have 2: "\<bar>sN\<bar> \<le> Am + e'" using sM absM by linarith
  have "eps * \<bar>sN\<bar> \<le> eps * (Am + e')" using 2 eps_pos(1) by (simp add: mult_left_mono)
  then have 3: "eps * \<bar>sN\<bar> \<le> eps * Am + eps * e'" by (simp add: distrib_left)
  have 4: "e' + eps * e' + eps * Am + tiny = dl"
    by (simp add: e'_def dl_def g_def algebra_simps)
  have mM: "\<bar>m - M\<bar> \<le> dl" using 1 3 4 sM by linarith
  have dl0: "0 \<le> dl" using mM by linarith
  have 5: "\<bar>t - m * 10\<bar> \<le> eps * \<bar>m * 10\<bar> + tiny" using dt by (rule double_err)
  have 6: "eps * \<bar>m * 10\<bar> = 10 * (eps * \<bar>m\<bar>)" by (simp add: abs_mult)
  have 7: "\<bar>m\<bar> \<le> Am + dl" using mM absM by linarith
  have "eps * \<bar>m\<bar> \<le> eps * (Am + dl)" using 7 eps_pos(1) by (simp add: mult_left_mono)
  then have 8: "eps * \<bar>m\<bar> \<le> eps * Am + eps * dl" by (simp add: distrib_left)
  have 9: "\<bar>of_int k / 10 - m\<bar> \<le> 1 / 20 + eps * \<bar>m\<bar> + tiny / 10"
    using kt 5 6 by linarith
  have 10: "dl + eps * dl + eps * Am = (g * g * G - 1) * Am + tiny * (g * g * G + g)"
    by (simp add: dl_def g_def algebra_simps)
  have "tiny * (g + 1 / 10) \<le> tiny * 2" using g1(2) tiny_pos by (simp only: mult_le_cancel_left_pos)
  then have 11: "tiny * (g * g * G + g) + tiny / 10 \<le> tiny * (g * g * G + 2)"
    by (simp add: algebra_simps)
  have 12: "slack qs = (g * g * G - 1) * Am + tiny * (g * g * G + 2)"
    by (simp add: slack_def g_def G_def Am_def A_def N_def algebra_simps)
  have "\<bar>of_int k / 10 - M\<bar> \<le> 1 / 20 + slack qs"
    using 9 8 mM 10 11 12 by linarith
  moreover have "double (of_int k / 10) = Fin a" using da rk by simp
  ultimately show ?thesis unfolding M_def T_def N_def by blast
qed

lemma power_one_plus_le:
  fixes x :: rat
  shows "0 \<le> x \<Longrightarrow> of_nat n * x \<le> 1 / 2 \<Longrightarrow> (1 + x) ^ n \<le> 1 + 2 * of_nat n * x"
proof (induction n)
  case 0
  then show ?case by simp
next
  case (Suc n)
  define N :: rat where "N = of_nat n"
  from Suc.prems have a: "N * x + x \<le> 1 / 2" by (simp add: N_def algebra_simps)
  with Suc.prems(1) have b: "N * x \<le> 1 / 2" by linarith
  from Suc.IH[OF Suc.prems(1)] b have ih: "(1 + x) ^ n \<le> 1 + 2 * N * x" by (simp add: N_def)
  have "(1 + x) ^ Suc n = (1 + x) * (1 + x) ^ n" by simp
  also have "\<dots> \<le> (1 + x) * (1 + 2 * N * x)"
    using ih Suc.prems(1) by (simp add: mult_left_mono)
  also have "\<dots> = 1 + 2 * N * x + x + 2 * (N * x) * x" by (simp add: algebra_simps)
  also have "\<dots> \<le> 1 + 2 * N * x + x + x"
  proof -
    have "2 * (N * x) \<le> 1" using b by simp
    then have "2 * (N * x) * x \<le> 1 * x" using Suc.prems(1) by (rule mult_right_mono)
    then show ?thesis by simp
  qed
  also have "\<dots> = 1 + 2 * of_nat (Suc n) * x" by (simp add: N_def algebra_simps)
  finally show ?case .
qed

lemma sum_list_abs_bound:
  fixes qs :: "rat list"
  shows "\<forall>q\<in>set qs. \<bar>q\<bar> \<le> b \<Longrightarrow> sum_list (map abs qs) \<le> b * of_nat (length qs)"
  by (induction qs) (auto simp: algebra_simps)

lemma slack_small:
  assumes ne: "qs \<noteq> []" and b: "\<forall>q\<in>set qs. \<bar>q\<bar> \<le> 100" and l: "length qs \<le> 1000"
  shows "slack qs \<le> 1 / 10 ^ 10"
proof -
  define N :: rat where "N = of_nat (length qs)"
  define P where "P = (1 + eps) ^ (length qs + 2)"
  define Am where "Am = sum_list (map abs qs) / N"
  have N0: "0 < N" using ne by (simp add: N_def)
  have "sum_list (map abs qs) \<le> 100 * N" unfolding N_def using b by (rule sum_list_abs_bound)
  then have Am: "Am \<le> 100" unfolding Am_def using N0 by (simp add: field_simps)
  have "0 \<le> sum_list (map abs qs)" by (rule sum_list_nonneg) auto
  then have Am0: "0 \<le> Am" unfolding Am_def using N0 by simp
  have "(of_nat (length qs + 2) :: rat) \<le> of_nat 1002" using l by (simp only: of_nat_le_iff)
  then have n: "(of_nat (length qs + 2) :: rat) \<le> 1002" by simp
  have e: "0 \<le> eps" using eps_pos by simp
  have "of_nat (length qs + 2) * eps \<le> 1002 * eps" using n e by (rule mult_right_mono)
  moreover have e2: "1002 * eps \<le> 1 / 2" by (simp add: eps_def)
  ultimately have h: "of_nat (length qs + 2) * eps \<le> 1 / 2"
    and h2: "of_nat (length qs + 2) * eps \<le> 1002 * eps" by linarith+
  from power_one_plus_le[OF e h] have "P \<le> 1 + 2 * (of_nat (length qs + 2) * eps)"
    by (simp add: P_def algebra_simps)
  with h2 have P: "P \<le> 1 + 2004 * eps" by linarith
  have P1: "1 \<le> P" unfolding P_def using e by (intro one_le_power) simp
  have "(P - 1) * Am \<le> (2004 * eps) * 100"
    using P P1 Am Am0 by (intro mult_mono) simp_all
  moreover have "(P + 2) * tiny \<le> 4 * eps"
  proof -
    have "P + 2 \<le> 4" using P e2 by linarith
    then have "(P + 2) * tiny \<le> 4 * tiny" using tiny_pos by (simp add: mult_right_mono)
    with tiny_le_eps show ?thesis by linarith
  qed
  moreover have "slack qs = (P - 1) * Am + (P + 2) * tiny"
    by (simp add: slack_def P_def Am_def N_def)
  ultimately have "slack qs \<le> 200404 * eps" by linarith
  also have "\<dots> \<le> 1 / 10 ^ 10" by (simp add: eps_def)
  finally show ?thesis .
qed

lemma mean_accuracy_steps:
  assumes "xs \<noteq> []"
    and "foldl num_add (Fin 0) xs = s"
    and "num_div s (Fin (of_nat (length xs))) = m"
    and "num_mul m (Fin 10) = t"
    and "Math_round t = r"
    and "num_div r (Fin 10) = a"
  shows "mean_accuracy xs = a"
  using assms by (simp add: mean_accuracy_def)

lemma foldl_num_add_bounded:
  "\<forall>q\<in>set qs. \<bar>q\<bar> \<le> 100 \<Longrightarrow> length qs \<le> 1000 \<Longrightarrow>
     \<exists>s. foldl num_add (Fin 0) (map Fin qs) = Fin s \<and> \<bar>s\<bar> \<le> 200 * of_nat (length qs)"
proof (induction qs rule: rev_induct)
  case Nil
  then show ?case by simp
next
  case (snoc x qs)
  define N :: rat where "N = of_nat (length qs)"
  from snoc.prems have p: "\<forall>q\<in>set qs. \<bar>q\<bar> \<le> 100" "length qs \<le> 1000" "\<bar>x\<bar> \<le> 100"
    and l: "length qs + 1 \<le> 1000" by simp_all
  from snoc.IH[OF p(1,2)] obtain s' where s': "foldl num_add (Fin 0) (map Fin qs) = Fin s'"
    and b': "\<bar>s'\<bar> \<le> 200 * N" by (auto simp: N_def)
  from l have "(of_nat (length qs + 1) :: rat) \<le> of_nat 1000" by (simp only: of_nat_le_iff)
  then have N: "N + 1 \<le> 1000" by (simp add: N_def)
  have v: "\<bar>s' + x\<bar> \<le> 200 * N + 100" using b' p(3) by linarith
  with N have v2: "\<bar>s' + x\<bar> \<le> 200000" by linarith
  also have "\<dots> \<le> (2 ^ 1000 :: rat)" by simp
  finally obtain s where s: "double (s' + x) = Fin s" using double_Fin by blast
  from double_err[OF s] have e: "\<bar>s - (s' + x)\<bar> \<le> eps * \<bar>s' + x\<bar> + tiny" .
  have "eps * \<bar>s' + x\<bar> \<le> eps * 200000" using v2 eps_pos(1) by (simp add: mult_left_mono)
  moreover have "eps * 200000 \<le> 1 / 2" by (simp add: eps_def)
  moreover have "tiny \<le> 1 / 2" using tiny_le_eps eps_pos(2) by linarith
  ultimately have "\<bar>s - (s' + x)\<bar> \<le> 1" using e by linarith
  moreover have "\<bar>s\<bar> \<le> \<bar>s - (s' + x)\<bar> + \<bar>s' + x\<bar>" by simp
  ultimately have "\<bar>s\<bar> \<le> 200 * N + 101" using v by linarith
  then have "\<bar>s\<bar> \<le> 200 * (N + 1)" by simp
  then have "\<bar>s\<bar> \<le> 200 * of_nat (length (qs @ [x]))" by (simp add: N_def)
  moreover have "foldl num_add (Fin 0) (map Fin (qs @ [x])) = Fin s"
    using s' s by (simp add: num_add_def)
  ultimately show ?case by blast
qed

lemma mean_accuracy_bounded:
  assumes ne: "qs \<noteq> []" and b: "\<forall>q\<in>set qs. \<bar>q\<bar> \<le> 100" and l: "length qs \<le> 1000"
  shows "\<exists>a. mean_accuracy (map Fin qs) = Fin a"
proof -
  define N :: rat where "N = of_nat (length qs)"
  have N1: "1 \<le> N" using ne unfolding N_def by (cases qs) simp_all
  from l have "(of_nat (length qs) :: rat) \<le> of_nat 1000" by (simp only: of_nat_le_iff)
  then have N2: "N \<le> 1000" by (simp add: N_def)
  from foldl_num_add_bounded[OF b l] obtain s where s: "foldl num_add (Fin 0) (map Fin qs) = Fin s"
    and sb: "\<bar>s\<bar> \<le> 200 * N" by (auto simp: N_def)
  have "\<bar>s / N\<bar> = \<bar>s\<bar> / N" using N1 by simp
  also have "\<dots> \<le> 200 * N / N" using sb N1 by (intro divide_right_mono) simp_all
  also have "\<dots> = 200" using N1 by simp
  finally have sN: "\<bar>s / N\<bar> \<le> 200" .
  then have "\<bar>s / N\<bar> \<le> 2 ^ 1000" by (rule order_trans) simp
  from double_Fin[OF this] obtain m where m: "double (s / N) = Fin m" and mb: "\<bar>m\<bar> \<le> 2 * \<bar>s / N\<bar> + 1"
    by blast
  from mb sN have "\<bar>m * 10\<bar> \<le> 4010" by (simp add: abs_mult)
  then have m10: "\<bar>m * 10\<bar> \<le> 2 ^ 1000" by (rule order_trans) simp
  from double_Fin[OF m10] obtain t where t: "double (m * 10) = Fin t" and tb: "\<bar>t\<bar> \<le> 2 * \<bar>m * 10\<bar> + 1"
    by blast
  define k :: rat where "k = of_int \<lfloor>t + 1 / 2\<rfloor>"
  from Math_round_error[of t] have r: "Math_round (Fin t) = Fin k" and kt: "\<bar>k - t\<bar> \<le> 1 / 2"
    by (simp_all add: k_def)
  from kt tb \<open>\<bar>m * 10\<bar> \<le> 4010\<close> have "\<bar>k\<bar> \<le> 8022" by linarith
  then have "\<bar>k / 10\<bar> \<le> 8022" by simp
  then have "\<bar>k / 10\<bar> \<le> 2 ^ 1000" by (rule order_trans) simp
  from double_Fin[OF this] obtain a where a: "double (k / 10) = Fin a" by blast
  have N0: "N \<noteq> 0" using N1 by simp
  have 1: "num_div (Fin s) (Fin N) = Fin m" using m N0 by (simp add: num_div_def)
  have 2: "num_mul (Fin m) (Fin 10) = Fin t" using t by (simp add: num_mul_def)
  have 3: "num_div (Fin k) (Fin 10) = Fin a" using a by (simp add: num_div_def)
  have "mean_accuracy (map Fin qs) = Fin a"
  proof (rule mean_accuracy_steps)
    show "map Fin qs \<noteq> []" using ne by simp
    show "foldl num_add (Fin 0) (map Fin qs) = Fin s" by (rule s)
    show "num_div (Fin s) (Fin (of_nat (length (map Fin qs)))) = Fin m"
      using 1 by (simp only: length_map N_def)
    show "num_mul (Fin m) (Fin 10) = Fin t" by (rule 2)
    show "Math_round (Fin t) = Fin k" by (rule r)
    show "num_div (Fin k) (Fin 10) = Fin a" by (rule 3)
  qed
  then show ?thesis by blast
qed

subsection \<open>The roundings of the examples\<close>

text \<open>
  The double of one tenth, a tie that goes to the even significand on either side, and a
  negative value.
\<close>

lemma double_tenth: "double (1 / 10) = Fin (3602879701896397 / 36028797018963968)"
  by (simp add: double_defs)

lemma double_tie_even: "double (2 ^ 53 + 1) = Fin (2 ^ 53)" "double (2 ^ 53 + 3) = Fin (2 ^ 53 + 4)"
  by (simp_all add: double_defs)

lemma double_negative: "double (- (1 / 10)) = Fin (- (3602879701896397 / 36028797018963968))"
  by (simp add: double_defs)

text \<open>The sample \<open>0.34999999999999999\<close>, and the samples of scenario E.\<close>

lemma d_lit: "double (34999999999999999 / 100000000000000000) = Fin (3152519739159347 / 9007199254740992)"
  by (simp add: double_defs)

lemma d_35: "double (35 / 100) = Fin (3152519739159347 / 9007199254740992)"
  by (simp add: double_defs)

lemma d_lit_10: "double (3152519739159347 / 9007199254740992 * 10) = Fin (7 / 2)"
  by (simp add: double_defs)

lemma d_lit_self: "double (3152519739159347 / 9007199254740992) = Fin (3152519739159347 / 9007199254740992)"
  by (simp add: double_defs)

lemma d_4_10: "double (4 / 10) = Fin (3602879701896397 / 9007199254740992)"
  by (simp add: double_defs)

lemma d_3_10: "double (3 / 10) = Fin (5404319552844595 / 18014398509481984)"
  by (simp add: double_defs)

lemma mean_lit: "mean_accuracy [Fin (3152519739159347 / 9007199254740992)] = Fin (3602879701896397 / 9007199254740992)"
proof (rule mean_accuracy_steps)
  show "[Fin (3152519739159347 / 9007199254740992)] \<noteq> []" by simp
  show "foldl num_add (Fin 0) [Fin (3152519739159347 / 9007199254740992)] = Fin (3152519739159347 / 9007199254740992)"
    by (simp add: num_defs d_lit_self)
  show "num_div (Fin (3152519739159347 / 9007199254740992)) (Fin (of_nat (length [Fin (3152519739159347 / 9007199254740992)])))
      = Fin (3152519739159347 / 9007199254740992)"
    by (simp add: num_defs d_lit_self)
  show "num_mul (Fin (3152519739159347 / 9007199254740992)) (Fin 10) = Fin (7 / 2)"
    using d_lit_10 by (simp add: num_defs)
  show "Math_round (Fin (7 / 2)) = Fin 4"
    by simp
  show "num_div (Fin 4) (Fin 10) = Fin (3602879701896397 / 9007199254740992)"
    using d_4_10 by (simp add: num_defs)
qed

lemma d_873: "double (873 / 10) = Fin (6143191366710067 / 70368744177664)"
  by (simp add: double_defs)

lemma d_91: "double 91 = Fin 91"
  by (simp add: double_defs)

lemma d_8865: "double (8865 / 100) = Fin (3119094585674957 / 35184372088832)"
  by (simp add: double_defs)

lemma mean_E: "mean_accuracy [double (873 / 10), double 91, double (8865 / 100)] = Fin 89"
proof (rule mean_accuracy_steps)
  show "[double (873 / 10), double 91, double (8865 / 100)] \<noteq> []" by simp
  have 1: "num_add (Fin 0) (Fin (6143191366710067 / 70368744177664)) = Fin (6143191366710067 / 70368744177664)"
    by (simp add: num_defs double_defs)
  have 2: "num_add (Fin (6143191366710067 / 70368744177664)) (Fin 91) = Fin (3136686771719373 / 17592186044416)"
    by (simp add: num_defs double_defs)
  have 3: "num_add (Fin (3136686771719373 / 17592186044416)) (Fin (3119094585674957 / 35184372088832))
      = Fin (1174058516139213 / 4398046511104)"
    by (simp add: num_defs double_defs)
  show "foldl num_add (Fin 0) [double (873 / 10), double 91, double (8865 / 100)] = Fin (1174058516139213 / 4398046511104)"
    by (simp only: foldl.simps d_873 d_91 d_8865 1 2 3)
  show "num_div (Fin (1174058516139213 / 4398046511104)) (Fin (of_nat (length [double (873 / 10), double 91, double (8865 / 100)])))
      = Fin (391352838713071 / 4398046511104)"
    by (simp add: num_defs double_defs)
  show "num_mul (Fin (391352838713071 / 4398046511104)) (Fin 10) = Fin (1956764193565355 / 2199023255552)"
    by (simp add: num_defs double_defs)
  show "Math_round (Fin (1956764193565355 / 2199023255552)) = Fin 890"
    by simp
  show "num_div (Fin 890) (Fin 10) = Fin 89"
    by (simp add: num_defs double_defs)
qed

text \<open>The samples 50.3 and 50.4 give the accuracy 50.3.\<close>

lemma d_503: "double (503 / 10) = Fin (3539547832136499 / 70368744177664)"
  by (simp add: double_defs)

lemma d_504: "double (504 / 10) = Fin (7093169413108531 / 140737488355328)"
  by (simp add: double_defs)

lemma mean_503_504: "mean_accuracy [double (503 / 10), double (504 / 10)] = double (503 / 10)"
proof (rule mean_accuracy_steps)
  show "[double (503 / 10), double (504 / 10)] \<noteq> []" by simp
  have 1: "num_add (Fin 0) (Fin (3539547832136499 / 70368744177664)) = Fin (3539547832136499 / 70368744177664)"
    by (simp add: num_defs double_defs)
  have 2: "num_add (Fin (3539547832136499 / 70368744177664)) (Fin (7093169413108531 / 140737488355328)) = Fin (1771533134672691 / 17592186044416)"
    by (simp add: num_defs double_defs)
  show "foldl num_add (Fin 0) [double (503 / 10), double (504 / 10)] = Fin (1771533134672691 / 17592186044416)"
    by (simp only: foldl.simps d_503 d_504 1 2)
  show "num_div (Fin (1771533134672691 / 17592186044416)) (Fin (of_nat (length [double (503 / 10), double (504 / 10)])))
      = Fin (1771533134672691 / 35184372088832)"
    by (simp add: num_defs double_defs)
  show "num_mul (Fin (1771533134672691 / 35184372088832)) (Fin 10) = Fin (8857665673363455 / 17592186044416)"
    by (simp add: num_defs double_defs)
  show "Math_round (Fin (8857665673363455 / 17592186044416)) = Fin 503"
    by simp
  show "num_div (Fin 503) (Fin 10) = double (503 / 10)"
    by (simp add: num_defs double_defs)
qed

section \<open>Lemmas on the callback\<close>

lemma Map_index_Some: "Map_index k m = Some j \<Longrightarrow> j < length m \<and> fst (m ! j) = k \<and> \<not> by_identity k"
  by (induction m arbitrary: j) (auto split: if_splits)

lemma Map_index_None: "Map_index k m = None \<Longrightarrow> \<not> by_identity k \<Longrightarrow> k \<notin> fst ` set m"
  by (induction m) (force split: if_splits)+

lemma add_analysis_keeps:
  "add_analysis conv a s = Inr s' \<Longrightarrow>
     gamesPlayed s' = gamesPlayed s \<and> team s' = team s \<and> username s' = username s"
  by (auto simp: add_analysis_def Let_def split: sum.splits if_splits)

lemma update_player_gamesPlayed:
  "update_player conv pc s = Inr s' \<Longrightarrow> gamesPlayed s' = Suc (gamesPlayed s)"
  by (auto simp: update_player_def Let_def split: if_splits dest!: add_analysis_keeps)

lemma side_Inr:
  assumes "side conv c g m = Inr m'"
  obtains (old) j s where "Map_index (side_name g c) m = Some j" "j < length m"
      "update_player conv (opt (get g ''players'') c) (snd (m ! j)) = Inr s"
      "m' = m[j := (fst (m ! j), s)]"
  | (new) s where "Map_index (side_name g c) m = None"
      "update_player conv (opt (get g ''players'') c)
         (new_player (side_name g c) (opt (get g ''players'') c)) = Inr s"
      "m' = m @ [(side_name g c, s)]"
proof (cases "Map_index (side_name g c) m")
  case None
  with assms obtain s where
    "update_player conv (opt (get g ''players'') c)
       (new_player (side_name g c) (opt (get g ''players'') c)) = Inr s"
    "m' = m @ [(side_name g c, s)]"
    by (auto simp: side_def Let_def nth_append split: sum.splits)
  with None show ?thesis by (rule new)
next
  case (Some j)
  with assms obtain s where
    "update_player conv (opt (get g ''players'') c) (snd (m ! j)) = Inr s"
    "m' = m[j := (fst (m ! j), s)]"
    by (auto simp: side_def Let_def split: sum.splits)
  with Some Map_index_Some[OF Some] show ?thesis by (intro old[of j s]) auto
qed

lemma length_str_split: "length (str_split x s) = Suc (count_list s x)"
  by (induction s) (auto split: list.splits)

lemma length_pieces: "length xs = length (filter (\<lambda>t. t \<noteq> []) xs) + count_list xs []"
  by (induction xs) auto

lemma length_str_split_tokens:
  "length (str_split (CHR '' '') s) = length (tokens s) + count_list (str_split (CHR '' '') s) []"
  unfolding tokens_def by (rule length_pieces)

lemma moveCount_cases:
  "moveCount g = Inr mc \<Longrightarrow>
     (if truthy (get g ''moves'') then (\<exists>s. get g ''moves'' = JStr s \<and> mc = Suc (count_list s (CHR '' '')))
      else mc = 0)"
  by (auto simp: moveCount_def Let_def length_str_split split: if_splits jsval.splits)

lemma classify_eq:
  assumes "\<not> nullish g" and "moveCount g = Inr mc"
  shows "classify g st = Inr (st\<lparr>
      gameCount := gameCount st + 1,
      lichessCount := lichessCount st + (if hasAnalysis g ''white'' \<or> hasAnalysis g ''black'' then 1 else 0),
      fullyAnalyzedCount := fullyAnalyzedCount st + (if hasAnalysis g ''white'' \<and> hasAnalysis g ''black'' then 1 else 0),
      shortCount := shortCount st + (if hasAnalysis g ''white'' \<and> hasAnalysis g ''black'' then 0 else if isShort g mc then 1 else 0),
      unanalyzedCount := unanalyzedCount st + (if hasAnalysis g ''white'' \<and> hasAnalysis g ''black'' then 0
          else if isShort g mc then 0 else if truthy (get g ''moves'') then 1 else 0)\<rparr>)"
  using assms
  unfolding classify_def dot_def Let_def hasAnalysis_def isShort_def
  by simp

lemma classify_Inr:
  assumes "classify g st = Inr st'"
  obtains mc where "\<not> nullish g" "moveCount g = Inr mc"
proof -
  from assms have ng: "\<not> nullish g"
    by (cases "nullish g") (simp_all add: classify_def dot_def)
  with assms obtain mc where mc: "moveCount g = Inr mc"
    by (cases "moveCount g") (simp_all add: classify_def dot_def Let_def)
  with ng that show ?thesis by blast
qed

lemma classify_ps:
  assumes "classify g st = Inr st'"
  shows "ps st' = ps st \<and> gameCount st' = Suc (gameCount st)"
proof -
  from assms obtain mc where "\<not> nullish g" "moveCount g = Inr mc" by (rule classify_Inr)
  from classify_eq[OF this, of st] assms show ?thesis by auto
qed

lemma classify_counts:
  assumes "classify g st = Inr st'"
  shows "\<exists>mc. moveCount g = Inr mc \<and>
     shortCount st' = shortCount st +
       (if (hasAnalysis g ''white'' \<and> hasAnalysis g ''black'') then 0 else if isShort g mc then 1 else 0) \<and>
     unanalyzedCount st' = unanalyzedCount st +
       (if (hasAnalysis g ''white'' \<and> hasAnalysis g ''black'') then 0 else if isShort g mc then 0
        else if truthy (get g ''moves'') then 1 else 0)"
proof -
  from assms obtain mc where mc: "\<not> nullish g" "moveCount g = Inr mc" by (rule classify_Inr)
  from classify_eq[OF this, of st] assms have "st' = st\<lparr>
      gameCount := gameCount st + 1,
      lichessCount := lichessCount st + (if hasAnalysis g ''white'' \<or> hasAnalysis g ''black'' then 1 else 0),
      fullyAnalyzedCount := fullyAnalyzedCount st + (if hasAnalysis g ''white'' \<and> hasAnalysis g ''black'' then 1 else 0),
      shortCount := shortCount st + (if hasAnalysis g ''white'' \<and> hasAnalysis g ''black'' then 0 else if isShort g mc then 1 else 0),
      unanalyzedCount := unanalyzedCount st + (if hasAnalysis g ''white'' \<and> hasAnalysis g ''black'' then 0
          else if isShort g mc then 0 else if truthy (get g ''moves'') then 1 else 0)\<rparr>"
    by simp
  then show ?thesis using mc(2) by (intro exI[of _ mc]) simp
qed

lemma side_key:
  assumes "side conv c g m = Inr m'" and k: "\<not> by_identity k"
    and one: "count_list (map fst m) k \<le> 1"
  shows "count_list (map fst m') k \<le> 1 \<and>
         played k m' = played k m + (if side_name g c = k then 1 else 0)"
  using assms(1)
proof (cases rule: side_Inr)
  case (old j s)
  from old(1) have nm: "fst (m ! j) = side_name g c" by (simp add: Map_index_Some)
  have keys: "map fst m' = map fst m"
    using old(2) by (simp add: old(4) map_update list_update_same_conv)
  have "played k m' = played k m + (if fst (m ! j) = k then gamesPlayed s else 0)
          - (if fst (m ! j) = k then gamesPlayed (snd (m ! j)) else 0)"
    using old(2) unfolding played_def old(4) by (simp add: map_update sum_list_update)
  with update_player_gamesPlayed[OF old(3)] nm keys one show ?thesis by auto
next
  case (new s)
  from update_player_gamesPlayed[OF new(2)] have "gamesPlayed s = 1"
    by (simp add: new_player_def)
  moreover have "side_name g c = k \<Longrightarrow> count_list (map fst m) k = 0"
    using Map_index_None[OF new(1)] k by (auto simp: count_list_0_iff)
  ultimately show ?thesis using one by (auto simp: new(3) played_def)
qed

lemma onItem_key:
  assumes "onItem conv g st = Inr st'" and k: "\<not> by_identity k"
    and one: "count_list (map fst (ps st)) k \<le> 1"
  shows "count_list (map fst (ps st')) k \<le> 1 \<and>
         played k (ps st') = played k (ps st) + occurrences k [g]"
proof -
  from assms(1) obtain st1 m1 m2 where c: "classify g st = Inr st1"
    and w: "side conv ''white'' g (ps st1) = Inr m1"
    and b: "side conv ''black'' g m1 = Inr m2" and st': "st' = st1\<lparr>ps := m2\<rparr>"
    by (auto simp: onItem_def split: sum.splits)
  from classify_ps[OF c] have p: "ps st1 = ps st" by simp
  from side_key[OF w k] one p have 1: "count_list (map fst m1) k \<le> 1"
    "played k m1 = played k (ps st) + (if side_name g ''white'' = k then 1 else 0)" by auto
  from side_key[OF b k 1(1)] 1(2) show ?thesis
    by (simp add: st' occurrences_def)
qed

lemma occurrences_Cons: "occurrences k (g # gs) = occurrences k [g] + occurrences k gs"
  by (simp add: occurrences_def)

lemma deliver_key:
  assumes "deliver (onItem conv) gs st = Inr st'" and k: "\<not> by_identity k"
    and one: "count_list (map fst (ps st)) k \<le> 1"
  shows "count_list (map fst (ps st')) k \<le> 1 \<and>
         played k (ps st') = played k (ps st) + occurrences k gs"
  using assms(1) one
proof (induction gs arbitrary: st)
  case Nil
  then show ?case by (simp add: occurrences_def)
next
  case (Cons g gs)
  from Cons.prems(1) obtain st1 where g: "onItem conv g st = Inr st1"
    and r: "deliver (onItem conv) gs st1 = Inr st'"
    by (auto split: sum.splits)
  from onItem_key[OF g k Cons.prems(2)] Cons.IH[OF r] show ?case
    by (simp add: occurrences_Cons[of k g gs])
qed

lemma side_total_played:
  assumes "side conv c g m = Inr m'"
  shows "total_played m' = Suc (total_played m)"
  using assms
proof (cases rule: side_Inr)
  case (old j s)
  then show ?thesis
    using update_player_gamesPlayed[OF old(3)]
    by (simp add: total_played_def map_update sum_list_update)
next
  case (new s)
  then show ?thesis
    using update_player_gamesPlayed[OF new(2)]
    by (simp add: total_played_def new_player_def)
qed

lemma onItem_played:
  assumes "onItem conv g st = Inr st'"
  shows "total_played (ps st') = total_played (ps st) + 2 \<and> gameCount st' = Suc (gameCount st)"
proof -
  from assms obtain st1 m1 m2 where c: "classify g st = Inr st1"
    and w: "side conv ''white'' g (ps st1) = Inr m1"
    and b: "side conv ''black'' g m1 = Inr m2" and st': "st' = st1\<lparr>ps := m2\<rparr>"
    by (auto simp: onItem_def split: sum.splits)
  from classify_ps[OF c] side_total_played[OF w] side_total_played[OF b] show ?thesis
    by (simp add: st')
qed

lemmas run_defs = onItem_def classify_def side_def start_def dot_def opt_def moveCount_def
  side_name_def new_player_def update_player_def add_analysis_def Number_or0_def or0_def
  num_add_def Let_def

text \<open>
  The callback returns on every value that is not \<open>null\<close>, whose \<open>moves\<close> is falsy or a
  string, when \<open>Number\<close> does not throw.
\<close>

lemma Number_or0_returns:
  assumes "\<forall>v. \<exists>n. conv v = Inr n"
  shows "\<exists>n. Number_or0 conv v = Inr n"
proof -
  from assms obtain n where "conv v = Inr n" by blast
  then have "\<exists>n. Number conv v = Inr n" by (cases v) simp_all
  then show ?thesis by (auto simp: Number_or0_def)
qed

lemma add_analysis_returns:
  assumes "\<forall>v. \<exists>n. conv v = Inr n"
  shows "\<exists>s'. add_analysis conv a s = Inr s'"
proof -
  from Number_or0_returns[OF assms] obtain i m b x where
    "Number_or0 conv (get a ''inaccuracy'') = Inr i" "Number_or0 conv (get a ''mistake'') = Inr m"
    "Number_or0 conv (get a ''blunder'') = Inr b" "Number_or0 conv (get a ''accuracy'') = Inr x"
    by metis
  then show ?thesis by (simp add: add_analysis_def Let_def)
qed

lemma update_player_returns:
  assumes "\<forall>v. \<exists>n. conv v = Inr n"
  shows "\<exists>s'. update_player conv pc s = Inr s'"
  using add_analysis_returns[OF assms] by (simp add: update_player_def Let_def)

lemma side_returns:
  assumes "\<forall>v. \<exists>n. conv v = Inr n"
  shows "\<exists>m'. side conv c g m = Inr m'"
proof -
  from update_player_returns[OF assms] obtain s where
    "update_player conv (opt (get g ''players'') c)
       (snd ((if Map_index (side_name g c) m = None
              then m @ [(side_name g c, new_player (side_name g c) (opt (get g ''players'') c))]
              else m) ! (case Map_index (side_name g c) m of None \<Rightarrow> length m | Some j \<Rightarrow> j))) = Inr s"
    by blast
  then show ?thesis by (simp add: side_def Let_def)
qed

lemma onItem_returns:
  assumes "\<not> nullish g" and "\<not> truthy (get g ''moves'') \<or> (\<exists>s. get g ''moves'' = JStr s)"
    and "\<forall>v. \<exists>n. conv v = Inr n"
  shows "\<exists>st'. onItem conv g st = Inr st'"
proof -
  have "\<exists>mc. moveCount g = Inr mc"
  proof (cases "truthy (get g ''moves'')")
    case True
    with assms(2) obtain s where "get g ''moves'' = JStr s" by blast
    with True show ?thesis by (simp add: moveCount_def Let_def)
  next
    case False
    then show ?thesis by (simp add: moveCount_def Let_def)
  qed
  then obtain mc where "moveCount g = Inr mc" ..
  from classify_eq[OF assms(1) this, of st] obtain st1 where 1: "classify g st = Inr st1" by blast
  from side_returns[OF assms(3)] obtain m1 where 2: "side conv ''white'' g (ps st1) = Inr m1" by blast
  from side_returns[OF assms(3)] obtain m2 where 3: "side conv ''black'' g m1 = Inr m2" by blast
  from 1 2 3 show ?thesis by (simp add: onItem_def)
qed

text \<open>The coercion and the team of server.js.\<close>

lemma Number_or0_not_NaN: "Number_or0 conv v = Inr n \<Longrightarrow> n \<noteq> NaN"
  by (auto simp: Number_or0_def or0_def split: sum.splits if_splits)

lemma Number_or0_missing:
  "Number_or0 conv JUndefined = Inr (Fin 0)" "Number_or0 conv JNull = Inr (Fin 0)"
  "Number_or0 conv (JNum NaN) = Inr (Fin 0)" "Number_or0 conv (JBool False) = Inr (Fin 0)"
  by (simp_all add: Number_or0_def or0_def)

lemma double_not_NaN: "double a \<noteq> NaN"
  by (simp add: double_def Let_def)

lemma num_add_NaN:
  "num_add x y = NaN \<longleftrightarrow> x = NaN \<or> y = NaN \<or> (x = PInf \<and> y = NInf) \<or> (x = NInf \<and> y = PInf)"
  by (cases x; cases y) (simp_all add: num_add_def double_not_NaN)

lemma add_analysis_sums:
  assumes "add_analysis conv a s = Inr s'"
  shows "\<exists>i m b. Number_or0 conv (get a ''inaccuracy'') = Inr i \<and>
           Number_or0 conv (get a ''mistake'') = Inr m \<and>
           Number_or0 conv (get a ''blunder'') = Inr b \<and>
           inaccuracies s' = num_add (inaccuracies s) i \<and>
           mistakes s' = num_add (mistakes s) m \<and>
           blunders s' = num_add (blunders s) b \<and>
           analyzedGames s' = Suc (analyzedGames s) \<and>
           (if nullish (get a ''accuracy'') then accuracies s' = accuracies s
            else \<exists>x. Number_or0 conv (get a ''accuracy'') = Inr x \<and>
                     accuracies s' = accuracies s @ [x])"
proof -
  from assms obtain i where i: "Number_or0 conv (get a ''inaccuracy'') = Inr i"
    by (cases "Number_or0 conv (get a ''inaccuracy'')") (simp_all add: add_analysis_def)
  from assms i obtain m where m: "Number_or0 conv (get a ''mistake'') = Inr m"
    by (cases "Number_or0 conv (get a ''mistake'')") (simp_all add: add_analysis_def)
  from assms i m obtain b where b: "Number_or0 conv (get a ''blunder'') = Inr b"
    by (cases "Number_or0 conv (get a ''blunder'')") (simp_all add: add_analysis_def)
  show ?thesis
  proof (cases "nullish (get a ''accuracy'')")
    case True
    with assms i m b show ?thesis
      by (auto simp: add_analysis_def Let_def)
  next
    case False
    with assms i m b obtain x where "Number_or0 conv (get a ''accuracy'') = Inr x"
      by (cases "Number_or0 conv (get a ''accuracy'')") (simp_all add: add_analysis_def Let_def)
    with assms i m b False show ?thesis
      by (auto simp: add_analysis_def Let_def)
  qed
qed

lemma update_player_team:
  assumes "update_player conv pc s = Inr s'"
  shows "team s' = (if \<not> truthy (team s) \<and> truthy (opt pc ''team'') then opt pc ''team'' else team s)"
proof -
  define s2 where "s2 = (if \<not> truthy (team s) \<and> truthy (opt pc ''team'')
       then s\<lparr>gamesPlayed := gamesPlayed s + 1, team := opt pc ''team''\<rparr>
       else s\<lparr>gamesPlayed := gamesPlayed s + 1\<rparr>)"
  have t2: "team s2 = (if \<not> truthy (team s) \<and> truthy (opt pc ''team'') then opt pc ''team'' else team s)"
    by (simp add: s2_def)
  have u: "update_player conv pc s =
      (if truthy (opt pc ''analysis'') then add_analysis conv (opt pc ''analysis'') s2 else Inr s2)"
    by (simp add: update_player_def Let_def s2_def)
  show ?thesis
  proof (cases "truthy (opt pc ''analysis'')")
    case True
    with assms u have "add_analysis conv (opt pc ''analysis'') s2 = Inr s'" by simp
    from add_analysis_keeps[OF this] t2 show ?thesis by simp
  next
    case False
    with assms u have "s' = s2" by simp
    with t2 show ?thesis by simp
  qed
qed

lemma side_team_sticky:
  assumes "side conv c g m = Inr m'" and "j < length m" and "truthy (team (snd (m ! j)))"
  shows "j < length m' \<and> fst (m' ! j) = fst (m ! j) \<and> team (snd (m' ! j)) = team (snd (m ! j))"
  using assms(1)
proof (cases rule: side_Inr)
  case (old i s)
  show ?thesis
  proof (cases "i = j")
    case True
    with old update_player_team[OF old(3)] assms(2,3) show ?thesis by simp
  next
    case False
    with old assms(2) show ?thesis by simp
  qed
next
  case (new s)
  with assms(2) show ?thesis by (simp add: nth_append)
qed

lemma onItem_team_sticky:
  assumes "onItem conv g st = Inr st'" and "j < length (ps st)" and "truthy (team (snd (ps st ! j)))"
  shows "j < length (ps st') \<and> fst (ps st' ! j) = fst (ps st ! j) \<and>
         team (snd (ps st' ! j)) = team (snd (ps st ! j))"
proof -
  from assms(1) obtain st1 m1 m2 where c: "classify g st = Inr st1"
    and w: "side conv ''white'' g (ps st1) = Inr m1"
    and b: "side conv ''black'' g m1 = Inr m2" and st': "st' = st1\<lparr>ps := m2\<rparr>"
    by (auto simp: onItem_def split: sum.splits)
  from classify_ps[OF c] have p: "ps st1 = ps st" by simp
  from side_team_sticky[OF w] assms(2,3) p
  have 1: "j < length m1" "fst (m1 ! j) = fst (ps st ! j)" "team (snd (m1 ! j)) = team (snd (ps st ! j))"
    by auto
  from side_team_sticky[OF b 1(1)] 1 assms(3) show ?thesis by (simp add: st')
qed

lemma deliver_team_sticky:
  assumes "deliver (onItem conv) gs st = Inr st'" and "j < length (ps st)"
    and "truthy (team (snd (ps st ! j)))"
  shows "j < length (ps st') \<and> fst (ps st' ! j) = fst (ps st ! j) \<and>
         team (snd (ps st' ! j)) = team (snd (ps st ! j))"
  using assms
proof (induction gs arbitrary: st)
  case Nil
  then show ?case by simp
next
  case (Cons g gs)
  from Cons.prems(1) obtain st1 where g: "onItem conv g st = Inr st1"
    and r: "deliver (onItem conv) gs st1 = Inr st'"
    by (auto split: sum.splits)
  from onItem_team_sticky[OF g Cons.prems(2,3)]
  have 1: "j < length (ps st1)" "fst (ps st1 ! j) = fst (ps st ! j)"
    "team (snd (ps st1 ! j)) = team (snd (ps st ! j))" by auto
  from Cons.IH[OF r 1(1)] 1 Cons.prems(3) show ?case by simp
qed

text \<open>
  The coercion of server.js lets the infinities through: a sum that has taken \<open>Infinity\<close>
  and then takes \<open>-Infinity\<close> is NaN.
\<close>

lemma server_sum_NaN_from_infinities:
  "\<exists>st. deliver (onItem conv) [overflow PInf, overflow NInf] start = Inr st \<and>
        map (\<lambda>e. (fst e, inaccuracies (snd e))) (ps st) =
          [(JStr ''ann'', NaN), (JStr ''Anonymous'', Fin 0)]"
  by (simp add: run_defs overflow_def)

lemmas part000_defs = aggregate_part000_def game_part000_def side_part000_def
  update_player_part000_def new_player_part000_def add_analysis_part000_def js_plus_def
  num_add_def
  side_name_def dot_def opt_def Let_def

section \<open>Lemmas on the reader\<close>

lemma decode_append:
  "decode d (a @ b) = (let (d1, t1) = decode d a; (d2, t2) = decode d1 b in (d2, t1 @ t2))"
  by (induction a arbitrary: d) (auto simp: Let_def split: prod.splits)

lemma str_split_not_Nil [simp]: "str_split x b \<noteq> []"
  by (induction b) (auto split: list.splits)

lemma str_split_no_sep: "x \<notin> set b \<Longrightarrow> str_split x b = [b]"
  by (induction b) auto

lemma last_str_split_no_sep: "x \<notin> set (last (str_split x b))"
  by (induction b) (auto split: list.splits)

lemma str_split_append:
  "str_split x (a @ b) = butlast (str_split x a) @ str_split x (last (str_split x a) @ b)"
  by (induction a) (auto split: list.splits)

lemma indexOf_None: "indexOf b x = None \<Longrightarrow> x \<notin> set b"
  by (induction b) (auto split: if_splits)

lemma indexOf_Some: "indexOf b x = Some i \<Longrightarrow> str_split x b = take i b # str_split x (drop (Suc i) b)"
proof (induction b arbitrary: i)
  case Nil then show ?case by simp
next
  case (Cons c cs)
  show ?case
  proof (cases "c = x")
    case True with Cons.prems show ?thesis by simp
  next
    case False
    with Cons.prems obtain j where j: "indexOf cs x = Some j" "i = Suc j" by auto
    from Cons.IH[OF j(1)] False j show ?thesis by simp
  qed
qed

lemma deliver_append:
  "deliver f (xs @ ys) st = (case deliver f xs st of Inl e \<Rightarrow> Inl e | Inr st' \<Rightarrow> deliver f ys st')"
  by (induction xs arbitrary: st) (auto split: sum.splits)

lemma nonblank_append [simp]: "nonblank (xs @ ys) = nonblank xs @ nonblank ys"
  by (simp add: nonblank_def)

lemma drain_eq:
  "drain parse f b st =
     map_sum (\<lambda>e. e) (Pair (last (str_split newline b)))
       (deliver (item parse f) (nonblank (butlast (str_split newline b))) st)"
proof (induction parse f b st rule: drain.induct)
  case (1 parse f buffer st)
  show ?case
  proof (cases "indexOf buffer newline")
    case None
    then show ?thesis
      by (subst drain.simps) (simp add: str_split_no_sep[OF indexOf_None] nonblank_def)
  next
    case (Some i)
    note sp = indexOf_Some[OF Some]
    show ?thesis
    proof (cases "trim (take i buffer) = []")
      case True
      with Some "1.IH"(2)[OF Some] show ?thesis
        by (subst drain.simps) (simp add: sp nonblank_def)
    next
      case False
      show ?thesis
      proof (cases "parse (trim (take i buffer))")
        case None
        then have it: "item parse f (trim (take i buffer)) st = Inl SyntaxError"
          by (simp add: item_def)
        from \<open>indexOf buffer newline = Some i\<close> False None show ?thesis
          by (subst drain.simps) (simp add: sp nonblank_def it)
      next
        case (Some g)
        then have it: "item parse f (trim (take i buffer)) st = f g st"
          by (simp add: item_def)
        show ?thesis
        proof (cases "f g st")
          case (Inl e)
          with \<open>indexOf buffer newline = Some i\<close> False Some show ?thesis
            by (subst drain.simps) (simp add: sp nonblank_def it)
        next
          case (Inr st')
          with \<open>indexOf buffer newline = Some i\<close> False Some
            "1.IH"(1)[OF \<open>indexOf buffer newline = Some i\<close> _ Some Inr]
          show ?thesis
            by (subst drain.simps) (simp add: sp nonblank_def it)
        qed
      qed
    qed
  qed
qed

lemma read_loop_eq:
  "newline \<notin> set buf \<Longrightarrow> read_loop parse f cs d buf st =
     map_sum (\<lambda>e. e) (\<lambda>st'. (fst (decode d (concat cs)),
                         last (str_split newline (buf @ snd (decode d (concat cs)))), st'))
       (deliver (item parse f)
          (nonblank (butlast (str_split newline (buf @ snd (decode d (concat cs)))))) st)"
proof (induction cs arbitrary: d buf st)
  case Nil
  then show ?case by (simp add: str_split_no_sep nonblank_def)
next
  case (Cons v rest)
  note IH = Cons.IH[OF last_str_split_no_sep]
  obtain d1 t1 where d1: "decode d v = (d1, t1)" by (cases "decode d v")
  obtain d2 t2 where d2: "decode d1 (concat rest) = (d2, t2)" by (cases "decode d1 (concat rest)")
  have all: "decode d (concat (v # rest)) = (d2, t1 @ t2)"
    by (simp add: decode_append d1 d2)
  have sp: "str_split newline (buf @ t1 @ t2) =
      butlast (str_split newline (buf @ t1)) @ str_split newline (last (str_split newline (buf @ t1)) @ t2)"
    using str_split_append[of newline "buf @ t1" t2] by simp
  show ?case
  proof (cases "deliver (item parse f) (nonblank (butlast (str_split newline (buf @ t1)))) st")
    case (Inl e)
    then show ?thesis
      unfolding all by (simp add: d1 drain_eq sp butlast_append deliver_append)
  next
    case (Inr st1)
    then show ?thesis
      unfolding all
      by (simp add: d1 drain_eq IH d2 sp butlast_append deliver_append)
  qed
qed

lemma decode_end_cases: "decode_end d = [] \<or> decode_end d = [0xFFFD]"
  by (simp add: decode_end_def utf16_def Let_def)

lemma newline_decode_end: "newline \<notin> set (decode_end d)"
  using decode_end_cases[of d] by (auto simp: newline_def)

lemma forEachNdjson_records:
  "forEachNdjson parse f (Some cs) st = deliver (item parse f) (records (decode_all (concat cs))) st"
proof -
  obtain d t where dt: "decode new_decoder (concat cs) = (d, t)"
    by (cases "decode new_decoder (concat cs)")
  let ?r = "last (str_split newline t)"
  have "str_split newline (t @ decode_end d) =
      butlast (str_split newline t) @ str_split newline (?r @ decode_end d)"
    by (rule str_split_append)
  also have "str_split newline (?r @ decode_end d) = [?r @ decode_end d]"
    by (rule str_split_no_sep) (simp add: last_str_split_no_sep newline_decode_end)
  finally have sp: "records (decode_all (concat cs)) =
      nonblank (butlast (str_split newline t)) @ nonblank [?r @ decode_end d]"
    by (simp add: records_def decode_all_def dt)
  show ?thesis
    unfolding sp
    by (simp add: forEachNdjson_def read_loop_eq dt deliver_append nonblank_def item_def Let_def
        split: sum.splits option.splits)
qed

lemma str_split_snoc_sep: "x \<notin> set l \<Longrightarrow> str_split x (l @ [x]) = [l, []]"
  by (induction l) auto

lemma last_str_split_snoc: "last (str_split x (xs @ [x])) = []"
proof -
  have "str_split x (xs @ [x]) = butlast (str_split x xs) @ str_split x (last (str_split x xs) @ [x])"
    by (rule str_split_append)
  then show ?thesis by (simp add: str_split_snoc_sep last_str_split_no_sep)
qed

lemma trim_Nil [simp]: "trim [] = []"
  by (simp add: trim_def)

lemma records_trailing:
  assumes "pre = [] \<or> last pre = newline" and "newline \<notin> set tail"
  shows "records (pre @ tail) = records pre @ (if trim tail = [] then [] else [trim tail])"
proof -
  have l: "last (str_split newline pre) = []"
  proof (cases "pre = []")
    case True then show ?thesis by simp
  next
    case False
    with assms(1) obtain xs where "pre = xs @ [newline]"
      by (metis append_butlast_last_id)
    then show ?thesis by (simp only: last_str_split_snoc)
  qed
  have b: "butlast (str_split newline pre) @ [[]] = str_split newline pre"
    by (metis l append_butlast_last_id str_split_not_Nil)
  have "records pre = nonblank (butlast (str_split newline pre) @ [[]])"
    by (simp only: records_def b)
  then have p: "records pre = nonblank (butlast (str_split newline pre))"
    by (simp add: nonblank_def)
  have "str_split newline (pre @ tail) =
      butlast (str_split newline pre) @ str_split newline (last (str_split newline pre) @ tail)"
    by (rule str_split_append)
  then have "str_split newline (pre @ tail) = butlast (str_split newline pre) @ [tail]"
    by (simp add: l str_split_no_sep[OF assms(2)])
  then have "records (pre @ tail) = nonblank (butlast (str_split newline pre)) @ nonblank [tail]"
    by (simp add: records_def)
  then show ?thesis
    by (simp add: p nonblank_def)
qed

lemmas decoder_defs = decode_all_def decode_byte_def handler_def lead_byte_def reset_def
  utf16_def new_decoder_def decode_end_def Let_def

lemmas reader_defs = records_def nonblank_def trim_def is_space_def newline_def item_def

lemma item_Inr: "item parse f line st = Inr st' \<Longrightarrow> \<exists>g. parse line = Some g \<and> f g st = Inr st'"
  by (auto simp: item_def split: option.splits)

lemma deliver_played:
  "deliver (item parse (onItem conv)) ls st = Inr st' \<Longrightarrow> total_played (ps st) = 2 * gameCount st
     \<Longrightarrow> total_played (ps st') = 2 * gameCount st'"
proof (induction ls arbitrary: st)
  case Nil
  then show ?case by simp
next
  case (Cons l ls)
  from Cons.prems(1) obtain st1 where 1: "item parse (onItem conv) l st = Inr st1"
    and 2: "deliver (item parse (onItem conv)) ls st1 = Inr st'"
    by (auto split: sum.splits)
  from item_Inr[OF 1] obtain g where "onItem conv g st = Inr st1" by blast
  from onItem_played[OF this] Cons.prems(2) have "total_played (ps st1) = 2 * gameCount st1"
    by simp
  from Cons.IH[OF 2 this] show ?case .
qed

section \<open>Lemmas on the metrics\<close>

lemma half_analyzed:
  "4 \<le> a \<Longrightarrow> num_ge (exact_div (Fin (of_nat a)) (Fin (of_nat g))) (Fin (1 / 2)) \<longleftrightarrow> g \<le> 2 * a"
proof (cases "g = 0")
  case True
  assume "4 \<le> a" with True show ?thesis by simp
next
  case False
  assume "4 \<le> a"
  have "(1 / 2 \<le> (of_nat a :: rat) / of_nat g) = ((of_nat g :: rat) \<le> of_nat (2 * a))"
    using False by (simp add: field_simps)
  also have "\<dots> = (g \<le> 2 * a)" by (simp only: of_nat_le_iff)
  finally show ?thesis using False by simp
qed

lemma eligible_eq:
  "eligible ms = filter (\<lambda>p. 4 \<le> analyzedGames p \<and> gamesPlayed p \<le> 2 * analyzedGames p) ms"
  unfolding eligible_def
  by (rule filter_cong[OF refl]) (auto simp: half_analyzed)

lemma half_analyzed_rounded:
  assumes "g \<le> 2 ^ 53"
  shows "num_ge (num_div (Fin (of_nat a)) (Fin (of_nat g))) (Fin (1 / 2))
       = num_ge (exact_div (Fin (of_nat a)) (Fin (of_nat g))) (Fin (1 / 2))"
proof (cases "g = 0")
  case True
  then show ?thesis by (simp add: num_div_def)
next
  case False
  define x :: rat where "x = of_nat a / of_nat g"
  have g0: "(0::rat) < of_nat g" using False by simp
  have x0: "0 \<le> x" by (simp add: x_def)
  have ex: "exact_div (Fin (of_nat a)) (Fin (of_nat g)) = Fin x" "num_div (Fin (of_nat a)) (Fin (of_nat g)) = double x"
    using False by (simp_all add: num_div_def x_def)
  show ?thesis
  proof (cases "1 / 2 \<le> x")
    case True
    with double_ge_half[OF True] show ?thesis unfolding ex by simp
  next
    case False
    then have "(of_nat g :: rat) > 2 * of_nat a" using g0 by (simp add: x_def field_simps)
    then have "(of_nat (2 * a) :: rat) < of_nat g" by simp
    then have "2 * a < g" by (simp only: of_nat_less_iff)
    then have "2 * a + 1 \<le> g" by simp
    then have "(of_nat (2 * a + 1) :: rat) \<le> of_nat g" by (simp only: of_nat_le_iff)
    then have 1: "2 * (of_nat a :: rat) + 1 \<le> of_nat g" by simp
    from assms have "(of_nat g :: rat) \<le> of_nat (2 ^ 53)" by (simp only: of_nat_le_iff)
    then have 2: "(of_nat g :: rat) \<le> 2 ^ 53" by simp
    define G :: rat where "G = of_nat g"
    define A :: rat where "A = of_nat a"
    have "A / G \<le> (2 ^ 53 - 1) / 2 ^ 54"
    proof -
      have G0: "0 < G" using g0 by (simp add: G_def)
      have "2 * A \<le> G - 1" using 1 by (simp add: A_def G_def)
      then have "A / G \<le> (G - 1) / (2 * G)" using G0 by (simp add: field_simps)
      also have "\<dots> = 1 / 2 - 1 / (2 * G)" using G0 by (simp add: field_simps)
      also have "\<dots> \<le> 1 / 2 - 1 / (2 * 2 ^ 53)"
      proof -
        have "2 * G \<le> 2 * 2 ^ 53" using 2 by (simp add: G_def)
        then have "1 / (2 * 2 ^ 53) \<le> 1 / (2 * G)" using G0 by (intro divide_left_mono) simp_all
        then show ?thesis by linarith
      qed
      also have "\<dots> = (2 ^ 53 - 1) / 2 ^ 54" by simp
      finally show ?thesis .
    qed
    then have "x \<le> (2 ^ 53 - 1) / 2 ^ 54" by (simp add: x_def A_def G_def)
    from double_lt_half[OF x0 this] obtain y where "double x = Fin y" "y < 1 / 2" by auto
    with False show ?thesis unfolding ex by simp
  qed
qed

lemma eligible_rounded:
  assumes "\<forall>p\<in>set ms. gamesPlayed p \<le> 2 ^ 53"
  shows "filter (\<lambda>p. analyzedGames p \<ge> 4 \<and>
                 num_ge (num_div (Fin (of_nat (analyzedGames p))) (Fin (of_nat (gamesPlayed p))))
                        (Fin (1 / 2))) ms = eligible ms"
  unfolding eligible_def using assms
  by (intro filter_cong[OF refl]) (simp add: half_analyzed_rounded)

lemma pool_Nil: "pool ms = [] \<longleftrightarrow> (\<forall>p\<in>set ms. analyzedGames p = 0)"
proof
  assume "pool ms = []"
  then have "withAnalysis ms = []"
    by (auto simp: pool_def split: if_splits)
  then show "\<forall>p\<in>set ms. analyzedGames p = 0"
    by (auto simp: withAnalysis_def filter_empty_conv)
next
  assume a: "\<forall>p\<in>set ms. analyzedGames p = 0"
  then have "withAnalysis ms = []" "eligible ms = []"
    by (auto simp: withAnalysis_def eligible_def filter_empty_conv)
  then show "pool ms = []" by (simp add: pool_def)
qed

section \<open>Lemmas on the handler\<close>

lemma try_block_valid:
  assumes "valid rt req"
  shows "try_block rt req tRes gRes =
     (case tRes of Rejected e \<Rightarrow> Inl e
      | Resolved tr \<Rightarrow>
        if \<not> ok tr then Inr \<lparr>status = 404, json = ErrorText ''Tournoi introuvable.''\<rparr>
        else (case Response_json rt tr of Inl e \<Rightarrow> Inl e
              | Inr tournament \<Rightarrow>
        (case gRes of Rejected e \<Rightarrow> Inl e
         | Resolved gr \<Rightarrow>
           if \<not> ok gr then
             Inr \<lparr>status = 500,
                  json = ErrorText (''Impossible de r'' @ [CHR 0xE9] @ ''cup'' @ [CHR 0xE9]
                                 @ ''rer les parties.'')\<rparr>
           else (case games rt gr of Inl e \<Rightarrow> Inl e | Inr st \<Rightarrow> respond tournament st))))"
proof -
  from assms have 1: "dot req ''tournamentId'' = Inr (get req ''tournamentId'')"
    and 2: "truthy (get req ''tournamentId'')" "truthy (get req ''type'')"
    and 3: "id_test rt (get req ''tournamentId'') = Inr True"
    and 4: "\<not> (get req ''type'' \<noteq> JStr ''swiss'' \<and> get req ''type'' \<noteq> JStr ''arena'')"
    by (auto simp: valid_def dot_def)
  show ?thesis
    unfolding try_block_def games_def Let_def by (simp only: 1 2 3 4 sum.case if_False not_True_eq_False simp_thms)
qed

lemma try_block_accepted:
  assumes "accepted rt req tRes tournament"
  shows "try_block rt req tRes gRes =
        (case gRes of Rejected e \<Rightarrow> Inl e
         | Resolved gr \<Rightarrow>
           if \<not> ok gr then
             Inr \<lparr>status = 500,
                  json = ErrorText (''Impossible de r'' @ [CHR 0xE9] @ ''cup'' @ [CHR 0xE9]
                                 @ ''rer les parties.'')\<rparr>
           else (case games rt gr of Inl e \<Rightarrow> Inl e | Inr st \<Rightarrow> respond tournament st))"
proof -
  from assms obtain tr where v: "valid rt req" and t: "tRes = Resolved tr" "ok tr"
      "Response_json rt tr = Inr tournament"
    by (auto simp: accepted_def split: fetched.splits)
  show ?thesis by (simp add: try_block_valid[OF v] t)
qed

lemma try_block_invalid:
  assumes "\<not> nullish req" and "\<not> valid rt req" and "try_block rt req tRes gRes = Inr r"
  shows "status r = 400 \<and> r \<noteq> no_analysis"
proof -
  from assms(1) have 1: "dot req ''tournamentId'' = Inr (get req ''tournamentId'')"
    by (simp add: dot_def)
  show ?thesis
  proof (cases "\<not> truthy (get req ''tournamentId'') \<or> \<not> truthy (get req ''type'')")
    case True
    with assms(3) show ?thesis
      unfolding try_block_def Let_def 1 by (auto simp: no_analysis_def)
  next
    case False
    note F = this
    show ?thesis
    proof (cases "id_test rt (get req ''tournamentId'')")
      case (Inl e)
      with assms(3) F show ?thesis
        unfolding try_block_def Let_def 1 by auto
    next
      case (Inr m)
      show ?thesis
      proof (cases m)
        case False
        with assms(3) F Inr show ?thesis
          unfolding try_block_def Let_def 1 by (auto simp: no_analysis_def)
      next
        case True
        with assms(1,2) F Inr have "get req ''type'' \<noteq> JStr ''swiss'' \<and> get req ''type'' \<noteq> JStr ''arena''"
          by (auto simp: valid_def)
        with assms(3) F Inr True show ?thesis
          unfolding try_block_def Let_def 1 by (auto simp: no_analysis_def)
      qed
    qed
  qed
qed

lemma respond_no_games: "gameCount st = 0 \<Longrightarrow> respond tournament st = Inr no_games"
  by (simp add: respond_def no_games_def)

lemma respond_no_analysis:
  "gameCount st \<noteq> 0 \<Longrightarrow> pool (metrics_of (ps st)) = [] \<Longrightarrow> respond tournament st = Inr no_analysis"
  by (simp add: respond_def no_analysis_def Let_def)

lemma respond_success:
  "gameCount st \<noteq> 0 \<Longrightarrow> pool (metrics_of (ps st)) \<noteq> [] \<Longrightarrow> respond tournament st = Inr r
     \<Longrightarrow> status r = 200"
  by (auto simp: respond_def Let_def dot_def split: if_splits)

lemma catch_status: "status (catch e) = (if e = AbortError then 504 else 500)"
  by (simp add: catch_def)

lemma forEachNdjson_empty: "forEachNdjson parse f (Some []) st = Inr st"
  by (simp add: forEachNdjson_def decode_end_def new_decoder_def trim_def)

lemma no_data_converse:
  assumes "api_analyze rt req tRes gRes = r" and r: "r = no_games \<or> r = no_analysis"
  shows "\<exists>tournament gr st. accepted rt req tRes tournament \<and> gRes = Resolved gr \<and> ok gr \<and>
           games rt gr = Inr st \<and> (gameCount st = 0 \<or> pool (metrics_of (ps st)) = [])"
proof -
  from r have sr: "status r = 404 \<or> status r = 400"
    by (auto simp: no_games_def no_analysis_def)
  have tb: "try_block rt req tRes gRes = Inr r"
  proof (cases "try_block rt req tRes gRes")
    case (Inl e)
    with assms(1) have "r = catch e" by (simp add: api_analyze_def)
    with sr catch_status[of e] show ?thesis by (auto split: if_splits)
  next
    case (Inr r')
    with assms(1) show ?thesis by (simp add: api_analyze_def)
  qed
  have nn: "\<not> nullish req"
    using tb by (cases "nullish req") (simp_all add: try_block_def dot_def)
  have v: "valid rt req"
  proof (rule ccontr)
    assume "\<not> valid rt req"
    from try_block_invalid[OF nn this tb] r show False
      by (auto simp: no_games_def)
  qed
  note tv = try_block_valid[OF v, of tRes gRes]
  from tb tv obtain tr where tr: "tRes = Resolved tr"
    by (cases tRes) simp_all
  have oktr: "ok tr"
  proof (rule ccontr)
    assume "\<not> ok tr"
    with tb tv tr have "r = \<lparr>status = 404, json = ErrorText ''Tournoi introuvable.''\<rparr>" by simp
    with r show False by (auto simp: no_games_def no_analysis_def)
  qed
  from tb tv tr oktr obtain tournament where t: "Response_json rt tr = Inr tournament"
    by (cases "Response_json rt tr") simp_all
  have acc: "accepted rt req tRes tournament"
    by (simp add: accepted_def v tr oktr t)
  note ta = try_block_accepted[OF acc, of gRes]
  from tb ta obtain gr where gr: "gRes = Resolved gr"
    by (cases gRes) simp_all
  have okgr: "ok gr"
  proof (rule ccontr)
    assume "\<not> ok gr"
    with tb ta gr have "status r = 500" by auto
    with sr show False by simp
  qed
  from tb ta gr okgr obtain st where st: "games rt gr = Inr st"
    by (cases "games rt gr") simp_all
  from tb ta gr okgr st have rs: "respond tournament st = Inr r" by simp
  have "gameCount st = 0 \<or> pool (metrics_of (ps st)) = []"
  proof (rule ccontr)
    assume "\<not> (gameCount st = 0 \<or> pool (metrics_of (ps st)) = [])"
    with respond_success[OF _ _ rs] have "status r = 200" by simp
    with sr show False by simp
  qed
  with acc gr okgr st show ?thesis by blast
qed

lemma api_analyze_accepted:
  assumes "accepted rt req tRes tournament" and "ok gr" and "games rt gr = Inr st"
  shows "api_analyze rt req tRes (Resolved gr) =
           (case respond tournament st of Inl e \<Rightarrow> catch e | Inr r \<Rightarrow> r)"
  by (simp add: api_analyze_def try_block_accepted[OF assms(1)] assms(2,3))

lemmas handler_defs = valid_def accepted_def invalid_def a_runtime_def a_request_def found_def
  id_test_def alnum_def Response_json_def games_def

lemma invalid_status:
  assumes "invalid rt req"
  shows "status (api_analyze rt req tRes gRes) = 400"
proof -
  from assms have nn: "\<not> nullish req" and nv: "\<not> valid rt req"
    by (auto simp: invalid_def valid_def)
  from nn have 1: "dot req ''tournamentId'' = Inr (get req ''tournamentId'')"
    by (simp add: dot_def)
  have "\<exists>r. try_block rt req tRes gRes = Inr r"
  proof (cases "\<not> truthy (get req ''tournamentId'') \<or> \<not> truthy (get req ''type'')")
    case True
    then show ?thesis unfolding try_block_def Let_def 1 by auto
  next
    case False
    with assms consider "id_test rt (get req ''tournamentId'') = Inr False"
      | "id_test rt (get req ''tournamentId'') = Inr True"
        "get req ''type'' \<noteq> JStr ''swiss'' \<and> get req ''type'' \<noteq> JStr ''arena''"
      by (auto simp: invalid_def)
    then show ?thesis
    proof cases
      case 1
      with False show ?thesis
        unfolding try_block_def Let_def \<open>dot req ''tournamentId'' = Inr (get req ''tournamentId'')\<close>
        by simp
    next
      case 2
      with False show ?thesis
        unfolding try_block_def Let_def \<open>dot req ''tournamentId'' = Inr (get req ''tournamentId'')\<close>
        by simp
    qed
  qed
  then obtain r where "try_block rt req tRes gRes = Inr r" ..
  with try_block_invalid[OF nn nv this] show ?thesis by (simp add: api_analyze_def)
qed

lemma a_valid: "valid a_runtime a_request"
  by (simp add: handler_defs)

lemma a_accepted: "accepted a_runtime a_request found (JObj [])"
  by (simp add: handler_defs decoder_defs)

lemma a_games_empty: "games a_runtime \<lparr>ok = True, stream = Some []\<rparr> = Inr start"
  by (simp add: games_def forEachNdjson_empty)

lemma a_games_one:
  "\<exists>st. games a_runtime \<lparr>ok = True, stream = Some [[0x7B, 0x7D]]\<rparr> = Inr st \<and> gameCount st = 1 \<and>
     pool (metrics_of (ps st)) = []"
proof -
  have d: "decode_all [0x7B, 0x7D] = [0x7B, 0x7D]"
    by (simp add: decoder_defs)
  have r: "records [0x7B, 0x7D] = [[0x7B, 0x7D]]"
    by (simp add: reader_defs)
  have g: "games a_runtime \<lparr>ok = True, stream = Some [[0x7B, 0x7D]]\<rparr> =
      onItem (\<lambda>v. Inr NaN) (JObj []) start"
    by (simp add: games_def a_runtime_def forEachNdjson_records d r item_def split: sum.splits)
  obtain st where st: "onItem (\<lambda>v. Inr NaN) (JObj []) start = Inr st" "gameCount st = 1"
    "map (\<lambda>e. analyzedGames (snd e)) (ps st) = [0]"
    by (simp add: run_defs)
  from st(3) have "\<forall>p\<in>set (metrics_of (ps st)). analyzedGames p = 0"
    by (auto simp: metrics_of_def finalize_def map_eq_Cons_conv)
  then have "pool (metrics_of (ps st)) = []" by (simp add: pool_Nil)
  with g st show ?thesis by simp
qed

lemma a_games_bad: "games a_runtime \<lparr>ok = True, stream = Some [[0x7B]]\<rparr> = Inl SyntaxError"
proof -
  have d: "decode_all [0x7B] = [0x7B]"
    by (simp add: decoder_defs)
  have r: "records [0x7B] = [[0x7B]]"
    by (simp add: reader_defs)
  show ?thesis
    by (simp add: games_def a_runtime_def forEachNdjson_records d r item_def)
qed

section \<open>The claims\<close>

subsection \<open>C1: the short and the unanalyzed games\<close>

text \<open>
  C1, as stated, fails where it counts the moves. The move count of line 85 is the number of
  pieces that \<open>split(" ")\<close> returns, the empty ones too. The game below has nine moves, so
  it is short by the count of its moves and it would go to \<open>shortCount\<close>; two blanks stand
  before its last move, the callback counts ten pieces, and the game goes to
  \<open>unanalyzedCount\<close>.
\<close>

theorem double_blank_not_short:
  "get double_blank ''moves'' = JStr ''e4 e5 Nf3 Nc6 Bb5 a6 Ba4 Nf6  O-O'' \<and>
   length (tokens ''e4 e5 Nf3 Nc6 Bb5 a6 Ba4 Nf6  O-O'') = 9 \<and>
   isShort double_blank 9 \<and>
   hasAnalysis double_blank ''white'' = False \<and>
   (\<exists>st'. onItem (\<lambda>v. Inr NaN) double_blank start = Inr st' \<and>
      shortCount st' = 0 \<and> unanalyzedCount st' = 1)"
proof (intro conjI)
  show "get double_blank ''moves'' = JStr ''e4 e5 Nf3 Nc6 Bb5 a6 Ba4 Nf6  O-O''"
    by (simp add: double_blank_def)
  show "length (tokens ''e4 e5 Nf3 Nc6 Bb5 a6 Ba4 Nf6  O-O'') = 9"
    by (simp add: tokens_def)
  show "isShort double_blank 9"
    by (simp add: isShort_def)
  show "hasAnalysis double_blank ''white'' = False"
    by (simp add: hasAnalysis_def double_blank_def opt_def)
  show "\<exists>st'. onItem (\<lambda>v. Inr NaN) double_blank start = Inr st' \<and>
      shortCount st' = 0 \<and> unanalyzedCount st' = 1"
    by (simp add: run_defs double_blank_def start_def)
qed

text \<open>
  C1, amended. Whenever the callback returns on a decoded game, the move count \<open>mc\<close> of
  line 85 is defined: it is 0 when \<open>g.moves\<close> is falsy (and the game is then short), and
  otherwise one more than the number of blanks of the string, which is the number of its
  moves plus the number of empty pieces between two blanks, before the first move and after
  the last one; it is the number of moves when single blanks separate the moves and
  nothing surrounds them. When both sides have an analysis, neither \<open>shortCount\<close> nor
  \<open>unanalyzedCount\<close> changes. Otherwise \<open>shortCount\<close> grows by one when the game is short
  (\<open>mc < 10\<close>, or the status is \<open>aborted\<close> or \<open>noStart\<close>), and \<open>unanalyzedCount\<close> grows
  by one when it is not short; a game that is not short has a move list, so the case of a
  game neither short nor with moves does not arise.
\<close>

theorem onItem_short_unanalyzed:
  assumes "onItem conv g st = Inr st'"
  shows "\<exists>mc. moveCount g = Inr mc \<and>
     (if truthy (get g ''moves'')
      then (\<exists>s. get g ''moves'' = JStr s \<and> mc = Suc (count_list s (CHR '' '')) \<and>
                mc = length (tokens s) + count_list (str_split (CHR '' '') s) [])
      else mc = 0 \<and> isShort g mc) \<and>
     shortCount st' = shortCount st +
       (if hasAnalysis g ''white'' \<and> hasAnalysis g ''black'' then 0
        else if isShort g mc then 1 else 0) \<and>
     unanalyzedCount st' = unanalyzedCount st +
       (if hasAnalysis g ''white'' \<and> hasAnalysis g ''black'' then 0
        else if isShort g mc then 0 else 1)"
proof -
  from assms obtain st1 where c: "classify g st = Inr st1"
    and s: "shortCount st' = shortCount st1" "unanalyzedCount st' = unanalyzedCount st1"
    by (auto simp: onItem_def split: sum.splits)
  from classify_counts[OF c] obtain mc where mc: "moveCount g = Inr mc"
    and sc: "shortCount st1 = shortCount st +
       (if (hasAnalysis g ''white'' \<and> hasAnalysis g ''black'') then 0 else if isShort g mc then 1 else 0)"
    and uc: "unanalyzedCount st1 = unanalyzedCount st +
       (if (hasAnalysis g ''white'' \<and> hasAnalysis g ''black'') then 0 else if isShort g mc then 0
        else if truthy (get g ''moves'') then 1 else 0)"
    by blast
  from moveCount_cases[OF mc] have m0: "if truthy (get g ''moves'')
      then (\<exists>s. get g ''moves'' = JStr s \<and> mc = Suc (count_list s (CHR '' '')))
      else mc = 0 \<and> isShort g mc"
    by (auto simp: isShort_def split: if_splits)
  have m: "if truthy (get g ''moves'')
      then (\<exists>s. get g ''moves'' = JStr s \<and> mc = Suc (count_list s (CHR '' '')) \<and>
                mc = length (tokens s) + count_list (str_split (CHR '' '') s) [])
      else mc = 0 \<and> isShort g mc"
  proof (cases "truthy (get g ''moves'')")
    case True
    with m0 obtain s where s: "get g ''moves'' = JStr s" "mc = Suc (count_list s (CHR '' ''))" by auto
    from s(2) have "mc = length (str_split (CHR '' '') s)" by (simp add: length_str_split)
    then have "mc = length (tokens s) + count_list (str_split (CHR '' '') s) []"
      by (simp only: length_str_split_tokens[symmetric])
    with s True show ?thesis by simp
  next
    case False
    with m0 show ?thesis by auto
  qed
  have t: "\<not> isShort g mc \<Longrightarrow> truthy (get g ''moves'')"
    using m by (cases "truthy (get g ''moves'')") auto
  have u: "unanalyzedCount st' = unanalyzedCount st +
       (if hasAnalysis g ''white'' \<and> hasAnalysis g ''black'' then 0
        else if isShort g mc then 0 else 1)"
    using uc s(2) t by (cases "isShort g mc") simp_all
  from mc m sc s(1) u show ?thesis by (intro exI[of _ mc] conjI) simp_all
qed

text \<open>
  Scenario C: status \<open>aborted\<close>, three moves, no analysis: counted short, not unanalyzed.
\<close>

theorem onItem_short_unanalyzed_witness:
  "\<exists>st'. onItem (\<lambda>v. Inr NaN) scenario_C start = Inr st' \<and> moveCount scenario_C = Inr 3 \<and>
      length (tokens ''e4 e5 Nf3'') = 3 \<and> shortCount st' = 1 \<and> unanalyzedCount st' = 0"
proof -
  obtain st' where run: "onItem (\<lambda>v. Inr NaN) scenario_C start = Inr st'"
    by (simp add: run_defs scenario_C_def)
  have mc: "moveCount scenario_C = Inr 3"
    by (simp add: moveCount_def scenario_C_def)
  have h: "\<not> hasAnalysis scenario_C ''white''" "isShort scenario_C 3"
    by (simp_all add: hasAnalysis_def isShort_def scenario_C_def opt_def)
  have tr: "truthy (get scenario_C ''moves'')" "get scenario_C ''moves'' = JStr ''e4 e5 Nf3''"
    by (simp_all add: scenario_C_def)
  have ce: "count_list (str_split (CHR '' '') ''e4 e5 Nf3'') [] = 0"
    by simp
  from onItem_short_unanalyzed[OF run] mc h tr ce
  have "shortCount st' = shortCount start + 1 \<and> unanalyzedCount st' = unanalyzedCount start \<and>
        3 = length (tokens ''e4 e5 Nf3'')"
    by auto
  with run mc show ?thesis by (auto simp: start_def)
qed

subsection \<open>C2: the reader does not depend on the chunks\<close>

text \<open>
  C2. Two lists of chunks with the same bytes give the same run of the reader: the same
  records reach the callback in the same order, and the same exception or final state
  results. That run is the one of the whole text: cut at the newlines, trimmed, the blank
  pieces dropped. When the text ends with a piece that has no newline after it and is not
  blank, that piece, trimmed, is the last record.
\<close>

theorem forEachNdjson_chunk_independent:
  assumes "concat cs = concat cs'"
  shows "forEachNdjson parse f (Some cs) st = forEachNdjson parse f (Some cs') st \<and>
         forEachNdjson parse f (Some cs) st =
           deliver (item parse f) (records (decode_all (concat cs))) st \<and>
         (\<forall>pre tail. decode_all (concat cs) = pre @ tail \<and> (pre = [] \<or> last pre = newline) \<and>
             newline \<notin> set tail \<and> trim tail \<noteq> [] \<longrightarrow>
             records (decode_all (concat cs)) = records pre @ [trim tail])"
  using assms by (auto simp: forEachNdjson_records records_trailing)

text \<open>
  The bytes of \<open>e-acute, newline, b\<close>, cut inside the two bytes of the first character and
  again before the newline, against the same bytes in one chunk.
\<close>

theorem forEachNdjson_chunk_independent_witness:
  "forEachNdjson Some (\<lambda>g st. Inr (st @ [g])) (Some [[0xC3], [0xA9], [0x0A, 0x62]]) []
     = Inr [[0xE9], [0x62]] \<and>
   forEachNdjson Some (\<lambda>g st. Inr (st @ [g])) (Some [[0xC3, 0xA9, 0x0A, 0x62]]) []
     = Inr [[0xE9], [0x62]] \<and>
   records (decode_all [0xC3, 0xA9, 0x0A, 0x62]) = records [0xE9, 0x0A] @ [trim [0x62]]"
proof -
  have c: "concat [[0xC3], [0xA9], [0x0A, 0x62]] = concat [[0xC3, 0xA9, 0x0A, 0x62 :: byte]]"
    by simp
  have d: "decode_all [0xC3, 0xA9, 0x0A, 0x62] = [0xE9, 0x0A, 0x62]"
    by (simp add: decoder_defs)
  have r: "records [0xE9, 0x0A, 0x62] = [[0xE9], [0x62]]"
    by (simp add: reader_defs)
  have t: "newline \<notin> set [0x62] \<and> trim [0x62] \<noteq> [] \<and> last [0xE9, 0x0A] = newline"
    by (simp add: reader_defs)
  note th = forEachNdjson_chunk_independent[OF c, of Some "\<lambda>g st. Inr (st @ [g])" "[]"]
  have A: "forEachNdjson Some (\<lambda>g st. Inr (st @ [g])) (Some [[0xC3], [0xA9], [0x0A, 0x62]]) []
     = Inr [[0xE9], [0x62]]"
    using th[THEN conjunct2, THEN conjunct1] by (simp add: d r item_def)
  have B: "forEachNdjson Some (\<lambda>g st. Inr (st @ [g])) (Some [[0xC3, 0xA9, 0x0A, 0x62]]) []
     = Inr [[0xE9], [0x62]]"
    using th[THEN conjunct1] A by simp
  have C: "records (decode_all [0xC3, 0xA9, 0x0A, 0x62]) = records [0xE9, 0x0A] @ [trim [0x62]]"
    using th[THEN conjunct2, THEN conjunct2, rule_format, of "[0xE9, 0x0A]" "[0x62]"] d t
    by simp
  from A B C show ?thesis by blast
qed

subsection \<open>C3: the ranking pool\<close>

text \<open>
  C3. The pool is the list of the players with at least 4 analyzed games and at least half of
  their games analyzed when that list has 2 entries or more, and the list of the players with
  an analyzed game otherwise. A player with 3 games, all analyzed, is in \<open>withAnalysis\<close> and
  not in \<open>eligible\<close>.
\<close>

theorem pool_rule:
  "pool ms =
     (if 2 \<le> length (filter (\<lambda>p. 4 \<le> analyzedGames p \<and> gamesPlayed p \<le> 2 * analyzedGames p) ms)
      then filter (\<lambda>p. 4 \<le> analyzedGames p \<and> gamesPlayed p \<le> 2 * analyzedGames p) ms
      else filter (\<lambda>p. 0 < analyzedGames p) ms) \<and>
   (p \<in> set ms \<and> gamesPlayed p = 3 \<and> analyzedGames p = 3 \<longrightarrow>
      p \<in> set (withAnalysis ms) \<and> p \<notin> set (eligible ms))"
  by (simp add: pool_def eligible_eq withAnalysis_def)

text \<open>
  Three players with 3 of 3, 4 of 5 and 4 of 10 games analyzed: one is eligible, so the pool
  is all three.
\<close>

theorem pool_rule_witness:
  "pool [three_of_three, three_of_three\<lparr>gamesPlayed := 5, analyzedGames := 4\<rparr>,
         three_of_three\<lparr>gamesPlayed := 10, analyzedGames := 4\<rparr>]
     = [three_of_three, three_of_three\<lparr>gamesPlayed := 5, analyzedGames := 4\<rparr>,
         three_of_three\<lparr>gamesPlayed := 10, analyzedGames := 4\<rparr>] \<and>
   three_of_three \<in> set (withAnalysis [three_of_three, three_of_three\<lparr>gamesPlayed := 5, analyzedGames := 4\<rparr>,
         three_of_three\<lparr>gamesPlayed := 10, analyzedGames := 4\<rparr>]) \<and>
   three_of_three \<notin> set (eligible [three_of_three, three_of_three\<lparr>gamesPlayed := 5, analyzedGames := 4\<rparr>,
         three_of_three\<lparr>gamesPlayed := 10, analyzedGames := 4\<rparr>])"
proof -
  note th = pool_rule[where p = three_of_three and ms = "[three_of_three,
         three_of_three\<lparr>gamesPlayed := 5, analyzedGames := 4\<rparr>,
         three_of_three\<lparr>gamesPlayed := 10, analyzedGames := 4\<rparr>]"]
  from th[THEN conjunct1] have 1: "pool [three_of_three, three_of_three\<lparr>gamesPlayed := 5, analyzedGames := 4\<rparr>,
         three_of_three\<lparr>gamesPlayed := 10, analyzedGames := 4\<rparr>]
     = [three_of_three, three_of_three\<lparr>gamesPlayed := 5, analyzedGames := 4\<rparr>,
         three_of_three\<lparr>gamesPlayed := 10, analyzedGames := 4\<rparr>]"
    by (simp add: three_of_three_def)
  from th[THEN conjunct2] have 2: "three_of_three \<in> set (withAnalysis [three_of_three, three_of_three\<lparr>gamesPlayed := 5, analyzedGames := 4\<rparr>,
         three_of_three\<lparr>gamesPlayed := 10, analyzedGames := 4\<rparr>]) \<and>
   three_of_three \<notin> set (eligible [three_of_three, three_of_three\<lparr>gamesPlayed := 5, analyzedGames := 4\<rparr>,
         three_of_three\<lparr>gamesPlayed := 10, analyzedGames := 4\<rparr>])"
    by (simp add: three_of_three_def)
  from 1 2 show ?thesis by blast
qed

subsection \<open>C4: two sides for every game\<close>

text \<open>
  C4. When the reader has gone through a stream of games with the callback and returned,
  the values of \<open>gamesPlayed\<close> of all the entries of the \<open>Map\<close> add up to twice
  \<open>gameCount\<close>.
\<close>

theorem gamesPlayed_sum:
  assumes "forEachNdjson parse (onItem conv) (Some cs) start = Inr st"
  shows "total_played (ps st) = 2 * gameCount st"
proof -
  from assms have "deliver (item parse (onItem conv)) (records (decode_all (concat cs))) start = Inr st"
    by (simp add: forEachNdjson_records)
  then show ?thesis
    by (rule deliver_played) (simp add: start_def total_played_def)
qed

text \<open>Two games \<open>{}\<close> in two chunks: one entry, \<open>Anonymous\<close>, with four games.\<close>

theorem gamesPlayed_sum_witness:
  "\<exists>st. forEachNdjson (\<lambda>l. if l = [0x7B, 0x7D] then Some (JObj []) else None)
          (onItem (\<lambda>v. Inr NaN)) (Some [[0x7B], [0x7D, 0x0A, 0x7B, 0x7D]]) start = Inr st \<and>
        gameCount st = 2 \<and> total_played (ps st) = 4"
proof -
  have d: "decode_all (concat [[0x7B], [0x7D, 0x0A, 0x7B, 0x7D]]) = [0x7B, 0x7D, 0x0A, 0x7B, 0x7D]"
    by (simp add: decoder_defs)
  have r: "records [0x7B, 0x7D, 0x0A, 0x7B, 0x7D] = [[0x7B, 0x7D], [0x7B, 0x7D]]"
    by (simp add: reader_defs)
  obtain st where run: "forEachNdjson (\<lambda>l. if l = [0x7B, 0x7D] then Some (JObj []) else None)
          (onItem (\<lambda>v. Inr NaN)) (Some [[0x7B], [0x7D, 0x0A, 0x7B, 0x7D]]) start = Inr st"
    and gc: "gameCount st = 2"
    unfolding forEachNdjson_records d r
    by (simp add: item_def run_defs)
  from gamesPlayed_sum[OF run] gc run show ?thesis by auto
qed

subsection \<open>C5: the sums of an analysis\<close>

text \<open>
  C5. A game whose white side has an analysis without \<open>inaccuracy\<close>, \<open>mistake\<close> and
  \<open>blunder\<close>. The loop of part\_000 adds \<open>undefined\<close> to the three sums, which become NaN,
  for every behaviour of \<open>+\<close> on strings and objects. The callback of server.js, on the
  same game, adds 0 to each.
\<close>

theorem part000_sum_NaN:
  "(\<exists>m. aggregate_part000 cat [bare_analysis] = Inr m \<and>
        map (\<lambda>e. (fst e, inaccuracies (snd e), mistakes (snd e), blunders (snd e), accuracies (snd e))) m =
          [(JStr ''ann'', JNum NaN, JNum NaN, JNum NaN, [JNum (Fin 90)]),
           (JStr ''bob'', JNum (Fin 0), JNum (Fin 0), JNum (Fin 0), [])]) \<and>
   (\<exists>st. deliver (onItem conv) [bare_analysis] start = Inr st \<and>
        map (\<lambda>e. (fst e, inaccuracies (snd e), mistakes (snd e), blunders (snd e), accuracies (snd e))) (ps st) =
          [(JStr ''ann'', Fin 0, Fin 0, Fin 0, [Fin 90]),
           (JStr ''bob'', Fin 0, Fin 0, Fin 0, [])])"
proof
  show "\<exists>m. aggregate_part000 cat [bare_analysis] = Inr m \<and>
        map (\<lambda>e. (fst e, inaccuracies (snd e), mistakes (snd e), blunders (snd e), accuracies (snd e))) m =
          [(JStr ''ann'', JNum NaN, JNum NaN, JNum NaN, [JNum (Fin 90)]),
           (JStr ''bob'', JNum (Fin 0), JNum (Fin 0), JNum (Fin 0), [])]"
    by (simp add: part000_defs bare_analysis_def)
  show "\<exists>st. deliver (onItem conv) [bare_analysis] start = Inr st \<and>
        map (\<lambda>e. (fst e, inaccuracies (snd e), mistakes (snd e), blunders (snd e), accuracies (snd e))) (ps st) =
          [(JStr ''ann'', Fin 0, Fin 0, Fin 0, [Fin 90]),
           (JStr ''bob'', Fin 0, Fin 0, Fin 0, [])]"
    by (simp add: run_defs bare_analysis_def)
qed

subsection \<open>C6: the team of a player\<close>

text \<open>
  C6. A player whose first game has no team and whose second game has the team \<open>t1\<close>. The
  loop of part\_000 sets the team when it creates the accumulator and never after: the team
  stays \<open>undefined\<close>. The callback of server.js, on the same games, sets it to \<open>t1\<close>.
\<close>

theorem part000_team_not_updated:
  "(\<exists>m. aggregate_part000 cat [untagged, tagged] = Inr m \<and>
        map (\<lambda>e. (fst e, team (snd e), gamesPlayed (snd e))) m =
          [(JStr ''ann'', JUndefined, 2), (JStr ''bob'', JUndefined, 2)]) \<and>
   (\<exists>st. deliver (onItem conv) [untagged, tagged] start = Inr st \<and>
        map (\<lambda>e. (fst e, team (snd e), gamesPlayed (snd e))) (ps st) =
          [(JStr ''ann'', JStr ''t1'', 2), (JStr ''bob'', JUndefined, 2)])"
proof
  show "\<exists>m. aggregate_part000 cat [untagged, tagged] = Inr m \<and>
        map (\<lambda>e. (fst e, team (snd e), gamesPlayed (snd e))) m =
          [(JStr ''ann'', JUndefined, 2), (JStr ''bob'', JUndefined, 2)]"
    by (simp add: part000_defs untagged_def tagged_def)
  show "\<exists>st. deliver (onItem conv) [untagged, tagged] start = Inr st \<and>
        map (\<lambda>e. (fst e, team (snd e), gamesPlayed (snd e))) (ps st) =
          [(JStr ''ann'', JStr ''t1'', 2), (JStr ''bob'', JUndefined, 2)]"
    by (simp add: run_defs untagged_def tagged_def)
qed

subsection \<open>C7: the accuracy of a player\<close>

text \<open>
  C7, as stated, fails: the accuracy is not always the mean rounded to one decimal place.
  Line 118 rounds \<open>mean * 10\<close>, and that product is itself rounded to a double. With the
  one sample \<open>0.34999999999999999\<close>, the mean is the sample, a double below 0.35, and its
  nearest tenth is 0.3; the product is rounded up to 3.5, \<open>Math.round\<close> gives 4, and the
  accuracy is 0.4, more than one twentieth away from the sample, as a double and as a
  decimal.
\<close>

theorem accuracy_not_nearest_tenth:
  "accuracies just_below = [Fin (3152519739159347 / 9007199254740992)] \<and>
   double (35 / 100) = Fin (3152519739159347 / 9007199254740992) \<and>
   accuracy (finalize just_below) = double (4 / 10) \<and>
   double (4 / 10) = Fin (3602879701896397 / 9007199254740992) \<and>
   double (3 / 10) = Fin (5404319552844595 / 18014398509481984) \<and>
   \<bar>3 / 10 - 3152519739159347 / 9007199254740992 :: rat\<bar> < 1 / 20 \<and>
   1 / 20 < \<bar>4 / 10 - 3152519739159347 / 9007199254740992 :: rat\<bar> \<and>
   \<bar>3 / 10 - 34999999999999999 / 100000000000000000 :: rat\<bar> < 1 / 20 \<and>
   1 / 20 < \<bar>4 / 10 - 34999999999999999 / 100000000000000000 :: rat\<bar>"
proof (intro conjI)
  show a: "accuracies just_below = [Fin (3152519739159347 / 9007199254740992)]"
    by (simp add: just_below_def d_lit)
  show "accuracy (finalize just_below) = double (4 / 10)"
    by (simp only: accuracy_finalize a mean_lit d_4_10)
  show "double (35 / 100) = Fin (3152519739159347 / 9007199254740992)" by (rule d_35)
  show "double (4 / 10) = Fin (3602879701896397 / 9007199254740992)" by (rule d_4_10)
  show "double (3 / 10) = Fin (5404319552844595 / 18014398509481984)" by (rule d_3_10)
qed simp_all

text \<open>
  C7, amended. The accuracy is 0 without samples. With samples, whenever the accuracy is
  finite, every sample is finite and the accuracy is the double nearest to a multiple of one
  tenth that lies within one twentieth of the mean of the samples, up to \<open>slack\<close>, the
  roundings of the sum, of the division and of the product. With at most a thousand samples
  between -100 and 100 the accuracy is finite and that multiple of one tenth lies within
  \<open>1 / 20 + 1 / 10 ^ 10\<close> of the mean. The doubles of 87.3, 91.0 and 88.65 give 89.
\<close>

theorem accuracy_rounded_mean:
  "(accuracies p = [] \<longrightarrow> accuracy (finalize p) = Fin 0) \<and>
   (accuracies p \<noteq> [] \<and> accuracy (finalize p) = Fin a \<longrightarrow>
      (\<exists>qs k. accuracies p = map Fin qs \<and> double (of_int k / 10) = Fin a \<and>
         \<bar>of_int k / 10 - sum_list qs / of_nat (length qs)\<bar> \<le> 1 / 20 + slack qs)) \<and>
   (accuracies p = map Fin qs \<and> qs \<noteq> [] \<and> (\<forall>q\<in>set qs. \<bar>q\<bar> \<le> 100) \<and> length qs \<le> 1000 \<longrightarrow>
      (\<exists>a k. accuracy (finalize p) = Fin a \<and> double (of_int k / 10) = Fin a \<and>
         \<bar>of_int k / 10 - sum_list qs / of_nat (length qs)\<bar> \<le> 1 / 20 + 1 / 10 ^ 10)) \<and>
   mean_accuracy [double (873 / 10), double 91, double (8865 / 100)] = Fin 89"
proof (intro conjI impI)
  assume "accuracies p = []"
  then show "accuracy (finalize p) = Fin 0" by (simp add: finalize_def mean_accuracy_def)
next
  assume a: "accuracies p \<noteq> [] \<and> accuracy (finalize p) = Fin a"
  then have m: "mean_accuracy (accuracies p) = Fin a" by (simp add: finalize_def)
  from a mean_accuracy_finite_samples[OF _ m] obtain qs where qs: "accuracies p = map Fin qs"
    by auto
  with a have ne: "qs \<noteq> []" by auto
  from mean_accuracy_error[OF ne] m qs obtain k :: int where "double (of_int k / 10) = Fin a"
    "\<bar>of_int k / 10 - sum_list qs / of_nat (length qs)\<bar> \<le> 1 / 20 + slack qs" by auto
  with qs show "\<exists>qs k. accuracies p = map Fin qs \<and> double (of_int k / 10) = Fin a \<and>
         \<bar>of_int k / 10 - sum_list qs / of_nat (length qs)\<bar> \<le> 1 / 20 + slack qs" by blast
next
  assume h: "accuracies p = map Fin qs \<and> qs \<noteq> [] \<and> (\<forall>q\<in>set qs. \<bar>q\<bar> \<le> 100) \<and> length qs \<le> 1000"
  then have qs: "accuracies p = map Fin qs" and ne: "qs \<noteq> []" and b: "\<forall>q\<in>set qs. \<bar>q\<bar> \<le> 100"
    and l: "length qs \<le> 1000" by simp_all
  from mean_accuracy_bounded[OF ne b l] obtain a' where a': "mean_accuracy (map Fin qs) = Fin a'"
    by blast
  from mean_accuracy_error[OF ne a'] obtain k :: int where k: "double (of_int k / 10) = Fin a'"
    "\<bar>of_int k / 10 - sum_list qs / of_nat (length qs)\<bar> \<le> 1 / 20 + slack qs" by blast
  from slack_small[OF ne b l] k(2)
  have "\<bar>of_int k / 10 - sum_list qs / of_nat (length qs)\<bar> \<le> 1 / 20 + 1 / 10 ^ 10" by linarith
  moreover have "accuracy (finalize p) = Fin a'" using a' qs by (simp add: finalize_def)
  ultimately show "\<exists>a k. accuracy (finalize p) = Fin a \<and> double (of_int k / 10) = Fin a \<and>
         \<bar>of_int k / 10 - sum_list qs / of_nat (length qs)\<bar> \<le> 1 / 20 + 1 / 10 ^ 10"
    using k(1) by blast
next
  show "mean_accuracy [double (873 / 10), double 91, double (8865 / 100)] = Fin 89"
    by (rule mean_E)
qed

text \<open>Scenario E in an accumulator, and the same accumulator without samples.\<close>

theorem accuracy_rounded_mean_witness:
  "accuracy (finalize scenario_E) = Fin 89 \<and>
   (\<exists>k::int. double (of_int k / 10) = Fin 89 \<and>
      \<bar>of_int k / 10 - (6143191366710067 / 70368744177664 + 91 + 3119094585674957 / 35184372088832) / 3\<bar>
        \<le> 1 / 20 + slack [6143191366710067 / 70368744177664, 91, 3119094585674957 / 35184372088832]) \<and>
   (\<exists>k::int. double (of_int k / 10) = Fin 89 \<and>
      \<bar>of_int k / 10 - (6143191366710067 / 70368744177664 + 91 + 3119094585674957 / 35184372088832) / 3\<bar>
        \<le> 1 / 20 + 1 / (10 ^ 10 :: rat)) \<and>
   accuracy (finalize (scenario_E\<lparr>accuracies := []\<rparr>)) = Fin 0"
proof -
  have acc: "accuracies scenario_E = [double (873 / 10), double 91, double (8865 / 100)]"
    by (simp add: scenario_E_def)
  have s: "accuracies scenario_E = map Fin [6143191366710067 / 70368744177664, 91, 3119094585674957 / 35184372088832]"
    by (simp only: acc d_873 d_91 d_8865 list.map)
  have 1: "accuracy (finalize scenario_E) = Fin 89"
    by (simp only: accuracy_finalize acc mean_E)
  have h: "accuracies scenario_E \<noteq> [] \<and> accuracy (finalize scenario_E) = Fin 89"
    using 1 by (simp add: acc)
  note th = accuracy_rounded_mean[where p = scenario_E and a = 89
      and qs = "[6143191366710067 / 70368744177664, 91, 3119094585674957 / 35184372088832]"]
  from th[THEN conjunct2, THEN conjunct1, rule_format, OF h]
  obtain qs and k :: int where qs: "accuracies scenario_E = map Fin qs"
    and k: "double (of_int k / 10) = Fin 89"
      "\<bar>of_int k / 10 - sum_list qs / of_nat (length qs)\<bar> \<le> 1 / 20 + slack qs" by blast
  from qs s have "map Fin qs = map Fin [6143191366710067 / 70368744177664, 91, 3119094585674957 / 35184372088832]"
    by simp
  then have e: "qs = [6143191366710067 / 70368744177664, 91, 3119094585674957 / 35184372088832]"
    by (simp only: inj_map_eq_map[OF inj_onI[of UNIV Fin, simplified]])
  have 2: "\<exists>k::int. double (of_int k / 10) = Fin 89 \<and>
      \<bar>of_int k / 10 - (6143191366710067 / 70368744177664 + 91 + 3119094585674957 / 35184372088832) / 3\<bar>
        \<le> 1 / 20 + slack [6143191366710067 / 70368744177664, 91, 3119094585674957 / 35184372088832]"
    using k unfolding e by (intro exI[of _ k]) simp
  have b: "[6143191366710067 / 70368744177664, 91, 3119094585674957 / 35184372088832] \<noteq> ([] :: rat list) \<and>
      (\<forall>q\<in>set [6143191366710067 / 70368744177664, 91, 3119094585674957 / 35184372088832 :: rat]. \<bar>q\<bar> \<le> 100) \<and>
      length [6143191366710067 / 70368744177664, 91, 3119094585674957 / 35184372088832 :: rat] \<le> 1000"
    by simp
  from th[THEN conjunct2, THEN conjunct2, THEN conjunct1, rule_format, OF conjI[OF s b]]
  obtain a' and k' :: int where k': "accuracy (finalize scenario_E) = Fin a'"
    "double (of_int k' / 10) = Fin a'"
    "\<bar>of_int k' / 10 - sum_list [6143191366710067 / 70368744177664, 91, 3119094585674957 / 35184372088832 :: rat]
        / of_nat (length [6143191366710067 / 70368744177664, 91, 3119094585674957 / 35184372088832 :: rat])\<bar>
      \<le> 1 / 20 + 1 / 10 ^ 10" by blast
  from k'(1) 1 have "a' = 89" by simp
  with k'(2,3) have 3: "\<exists>k::int. double (of_int k / 10) = Fin 89 \<and>
      \<bar>of_int k / 10 - (6143191366710067 / 70368744177664 + 91 + 3119094585674957 / 35184372088832) / 3\<bar>
        \<le> 1 / 20 + 1 / (10 ^ 10 :: rat)"
    by (intro exI[of _ k']) simp
  from accuracy_rounded_mean[where p = "scenario_E\<lparr>accuracies := []\<rparr>", THEN conjunct1]
  have 4: "accuracy (finalize (scenario_E\<lparr>accuracies := []\<rparr>)) = Fin 0"
    by simp
  from 1 2 3 4 show ?thesis by blast
qed

subsection \<open>C8: nothing to analyze\<close>

text \<open>
  C8. When the request is accepted and the reader returns, the reply is the one of line 114
  (status 404) when no game was decoded, the one of line 125 (status 400) when games were
  decoded and the pool is empty, and otherwise has status 200, or 500 when the tournament is
  \<open>null\<close>. Conversely one of these two replies is sent only in these two cases. The pool
  is empty exactly when no player has an analyzed game. An empty stream gives the reply of
  line 114.
\<close>

theorem no_data_reply:
  "(accepted rt req tRes tournament \<and> ok gr \<and> games rt gr = Inr st \<longrightarrow>
      (gameCount st = 0 \<longrightarrow> api_analyze rt req tRes (Resolved gr) = no_games) \<and>
      (gameCount st \<noteq> 0 \<and> pool (metrics_of (ps st)) = [] \<longrightarrow>
         api_analyze rt req tRes (Resolved gr) = no_analysis) \<and>
      (gameCount st \<noteq> 0 \<and> pool (metrics_of (ps st)) \<noteq> [] \<longrightarrow>
         status (api_analyze rt req tRes (Resolved gr)) = 200
         \<or> status (api_analyze rt req tRes (Resolved gr)) = 500)) \<and>
   (api_analyze rt req tRes gRes = no_games \<or> api_analyze rt req tRes gRes = no_analysis \<longrightarrow>
      (\<exists>tournament gr st. accepted rt req tRes tournament \<and> gRes = Resolved gr \<and> ok gr \<and>
           games rt gr = Inr st \<and> (gameCount st = 0 \<or> pool (metrics_of (ps st)) = []))) \<and>
   (pool (metrics_of (ps st)) = [] \<longleftrightarrow> (\<forall>e\<in>set (ps st). analyzedGames (snd e) = 0)) \<and>
   (accepted rt req tRes tournament \<and> ok gr \<and> stream gr = Some [] \<longrightarrow>
      api_analyze rt req tRes (Resolved gr) = no_games)"
proof (intro conjI impI)
  assume a: "accepted rt req tRes tournament \<and> ok gr \<and> games rt gr = Inr st"
  then have eq: "api_analyze rt req tRes (Resolved gr) =
           (case respond tournament st of Inl e \<Rightarrow> catch e | Inr r \<Rightarrow> r)"
    by (simp add: api_analyze_accepted)
  { assume "gameCount st = 0"
    then show "api_analyze rt req tRes (Resolved gr) = no_games"
      by (simp add: eq respond_no_games) }
  { assume "gameCount st \<noteq> 0 \<and> pool (metrics_of (ps st)) = []"
    then show "api_analyze rt req tRes (Resolved gr) = no_analysis"
      by (simp add: eq respond_no_analysis) }
  { assume n: "gameCount st \<noteq> 0 \<and> pool (metrics_of (ps st)) \<noteq> []"
    show "status (api_analyze rt req tRes (Resolved gr)) = 200
         \<or> status (api_analyze rt req tRes (Resolved gr)) = 500"
    proof (cases "respond tournament st")
      case (Inl e)
      with n have "e = TypeError"
        by (auto simp: respond_def Let_def dot_def split: if_splits)
      with Inl show ?thesis by (simp add: eq catch_def)
    next
      case (Inr r)
      with respond_success[OF _ _ Inr] n show ?thesis by (simp add: eq)
    qed }
next
  assume "api_analyze rt req tRes gRes = no_games \<or> api_analyze rt req tRes gRes = no_analysis"
  then show "\<exists>tournament gr st. accepted rt req tRes tournament \<and> gRes = Resolved gr \<and> ok gr \<and>
           games rt gr = Inr st \<and> (gameCount st = 0 \<or> pool (metrics_of (ps st)) = [])"
    using no_data_converse[OF refl] by blast
next
  show "pool (metrics_of (ps st)) = [] \<longleftrightarrow> (\<forall>e\<in>set (ps st). analyzedGames (snd e) = 0)"
    by (simp add: pool_Nil metrics_of_def finalize_def)
next
  assume a: "accepted rt req tRes tournament \<and> ok gr \<and> stream gr = Some []"
  then have "games rt gr = Inr start" by (simp add: games_def forEachNdjson_empty)
  with a have "api_analyze rt req tRes (Resolved gr) =
           (case respond tournament start of Inl e \<Rightarrow> catch e | Inr r \<Rightarrow> r)"
    by (simp add: api_analyze_accepted)
  then show "api_analyze rt req tRes (Resolved gr) = no_games"
    by (simp add: respond_no_games start_def)
qed

text \<open>An empty stream, and a stream of one game without analysis.\<close>

theorem no_data_reply_witness:
  "api_analyze a_runtime a_request found (Resolved \<lparr>ok = True, stream = Some []\<rparr>) = no_games \<and>
   api_analyze a_runtime a_request found (Resolved \<lparr>ok = True, stream = Some [[0x7B, 0x7D]]\<rparr>)
     = no_analysis"
proof -
  obtain st where st: "games a_runtime \<lparr>ok = True, stream = Some [[0x7B, 0x7D]]\<rparr> = Inr st"
    "gameCount st = 1" "pool (metrics_of (ps st)) = []"
    using a_games_one by blast
  have 1: "api_analyze a_runtime a_request found (Resolved \<lparr>ok = True, stream = Some []\<rparr>) = no_games"
    using no_data_reply[where rt = a_runtime and req = a_request and tRes = found
        and tournament = "JObj []" and gr = "\<lparr>ok = True, stream = Some []\<rparr>",
        THEN conjunct2, THEN conjunct2, THEN conjunct2] a_accepted
    by simp
  have 2: "api_analyze a_runtime a_request found (Resolved \<lparr>ok = True, stream = Some [[0x7B, 0x7D]]\<rparr>)
     = no_analysis"
    using no_data_reply[where rt = a_runtime and req = a_request and tRes = found
        and tournament = "JObj []" and gr = "\<lparr>ok = True, stream = Some [[0x7B, 0x7D]]\<rparr>"
        and st = st, THEN conjunct1] a_accepted st
    by simp
  from 1 2 show ?thesis by blast
qed

subsection \<open>C9: the statuses of the failures\<close>

text \<open>
  C9, as stated, fails: a tournament that is not found and a stream without games both give
  status 404, and a second response that is not \<open>ok\<close> and a line that does not parse both
  give status 500.
\<close>

theorem error_kinds_share_status:
  "status (api_analyze a_runtime a_request (Resolved \<lparr>ok = False, stream = None\<rparr>) (Rejected Error)) = 404 \<and>
   status (api_analyze a_runtime a_request found (Resolved \<lparr>ok = True, stream = Some []\<rparr>)) = 404 \<and>
   status (api_analyze a_runtime a_request found (Resolved \<lparr>ok = False, stream = None\<rparr>)) = 500 \<and>
   status (api_analyze a_runtime a_request found (Resolved \<lparr>ok = True, stream = Some [[0x7B]]\<rparr>)) = 500"
proof (intro conjI)
  show "status (api_analyze a_runtime a_request (Resolved \<lparr>ok = False, stream = None\<rparr>) (Rejected Error)) = 404"
    by (simp add: api_analyze_def try_block_valid[OF a_valid])
  show "status (api_analyze a_runtime a_request found (Resolved \<lparr>ok = True, stream = Some []\<rparr>)) = 404"
    by (simp add: api_analyze_def try_block_accepted[OF a_accepted] a_games_empty respond_def start_def)
  show "status (api_analyze a_runtime a_request found (Resolved \<lparr>ok = False, stream = None\<rparr>)) = 500"
    by (simp add: api_analyze_def try_block_accepted[OF a_accepted])
  show "status (api_analyze a_runtime a_request found (Resolved \<lparr>ok = True, stream = Some [[0x7B]]\<rparr>)) = 500"
    by (simp add: api_analyze_def try_block_accepted[OF a_accepted] a_games_bad catch_def)
qed

text \<open>
  C9, amended. A request that fails a check gets 400; a tournament not found 404; a rejected
  \<open>fetch\<close> 504 when the timer aborted it and 500 otherwise; a second response not \<open>ok\<close>
  500; a line that does not parse 500; no game 404; no analyzed game 400. The timeout alone
  has a status of its own.
\<close>

theorem failure_statuses:
  "(invalid rt req \<longrightarrow> status (api_analyze rt req tRes gRes) = 400) \<and>
   (valid rt req \<and> tRes = Resolved tr \<and> \<not> ok tr \<longrightarrow> status (api_analyze rt req tRes gRes) = 404) \<and>
   (valid rt req \<and> tRes = Rejected e \<longrightarrow>
      status (api_analyze rt req tRes gRes) = (if e = AbortError then 504 else 500)) \<and>
   (accepted rt req tRes tournament \<and> gRes = Rejected e \<longrightarrow>
      status (api_analyze rt req tRes gRes) = (if e = AbortError then 504 else 500)) \<and>
   (accepted rt req tRes tournament \<and> gRes = Resolved gr \<and> \<not> ok gr \<longrightarrow>
      status (api_analyze rt req tRes gRes) = 500) \<and>
   (accepted rt req tRes tournament \<and> gRes = Resolved gr \<and> ok gr \<and> games rt gr = Inl SyntaxError \<longrightarrow>
      status (api_analyze rt req tRes gRes) = 500) \<and>
   (accepted rt req tRes tournament \<and> gRes = Resolved gr \<and> ok gr \<and> games rt gr = Inr st \<and>
      gameCount st = 0 \<longrightarrow> status (api_analyze rt req tRes gRes) = 404) \<and>
   (accepted rt req tRes tournament \<and> gRes = Resolved gr \<and> ok gr \<and> games rt gr = Inr st \<and>
      gameCount st \<noteq> 0 \<and> pool (metrics_of (ps st)) = [] \<longrightarrow>
      status (api_analyze rt req tRes gRes) = 400)"
proof (intro conjI impI)
  assume "invalid rt req"
  then show "status (api_analyze rt req tRes gRes) = 400" by (rule invalid_status)
next
  assume "valid rt req \<and> tRes = Resolved tr \<and> \<not> ok tr"
  then show "status (api_analyze rt req tRes gRes) = 404"
    by (simp add: api_analyze_def try_block_valid)
next
  assume "valid rt req \<and> tRes = Rejected e"
  then show "status (api_analyze rt req tRes gRes) = (if e = AbortError then 504 else 500)"
    by (simp add: api_analyze_def try_block_valid catch_def)
next
  assume a: "accepted rt req tRes tournament \<and> gRes = Rejected e"
  then have acc: "accepted rt req tRes tournament" by simp
  from a show "status (api_analyze rt req tRes gRes) = (if e = AbortError then 504 else 500)"
    by (simp add: api_analyze_def try_block_accepted[OF acc] catch_def)
next
  assume a: "accepted rt req tRes tournament \<and> gRes = Resolved gr \<and> \<not> ok gr"
  then have acc: "accepted rt req tRes tournament" by simp
  from a show "status (api_analyze rt req tRes gRes) = 500"
    by (simp add: api_analyze_def try_block_accepted[OF acc])
next
  assume a: "accepted rt req tRes tournament \<and> gRes = Resolved gr \<and> ok gr \<and> games rt gr = Inl SyntaxError"
  then have acc: "accepted rt req tRes tournament" by simp
  from a show "status (api_analyze rt req tRes gRes) = 500"
    by (simp add: api_analyze_def try_block_accepted[OF acc] catch_def)
next
  assume a: "accepted rt req tRes tournament \<and> gRes = Resolved gr \<and> ok gr \<and> games rt gr = Inr st \<and>
      gameCount st = 0"
  then have acc: "accepted rt req tRes tournament" by simp
  from a show "status (api_analyze rt req tRes gRes) = 404"
    by (simp add: api_analyze_def try_block_accepted[OF acc] respond_def)
next
  assume a: "accepted rt req tRes tournament \<and> gRes = Resolved gr \<and> ok gr \<and> games rt gr = Inr st \<and>
      gameCount st \<noteq> 0 \<and> pool (metrics_of (ps st)) = []"
  then have acc: "accepted rt req tRes tournament" by simp
  from a show "status (api_analyze rt req tRes gRes) = 400"
    by (simp add: api_analyze_def try_block_accepted[OF acc] respond_def)
qed

text \<open>One request for each line of the statement.\<close>

theorem failure_statuses_witness:
  "status (api_analyze a_runtime (JObj [(''tournamentId'', JStr ''a-b''), (''type'', JStr ''swiss'')])
             found found) = 400 \<and>
   status (api_analyze a_runtime a_request (Resolved \<lparr>ok = False, stream = None\<rparr>) found) = 404 \<and>
   status (api_analyze a_runtime a_request (Rejected AbortError) found) = 504 \<and>
   status (api_analyze a_runtime a_request found (Rejected Error)) = 500 \<and>
   status (api_analyze a_runtime a_request found (Resolved \<lparr>ok = False, stream = None\<rparr>)) = 500 \<and>
   status (api_analyze a_runtime a_request found (Resolved \<lparr>ok = True, stream = Some [[0x7B]]\<rparr>)) = 500 \<and>
   status (api_analyze a_runtime a_request found (Resolved \<lparr>ok = True, stream = Some []\<rparr>)) = 404 \<and>
   status (api_analyze a_runtime a_request found (Resolved \<lparr>ok = True, stream = Some [[0x7B, 0x7D]]\<rparr>)) = 400"
proof -
  obtain st where st: "games a_runtime \<lparr>ok = True, stream = Some [[0x7B, 0x7D]]\<rparr> = Inr st"
    "gameCount st = 1" "pool (metrics_of (ps st)) = []"
    using a_games_one by blast
  have i: "invalid a_runtime (JObj [(''tournamentId'', JStr ''a-b''), (''type'', JStr ''swiss'')])"
    by (simp add: handler_defs)
  have 1: "status (api_analyze a_runtime (JObj [(''tournamentId'', JStr ''a-b''), (''type'', JStr ''swiss'')])
             found found) = 400"
    using failure_statuses[THEN conjunct1] i by blast
  have 2: "status (api_analyze a_runtime a_request (Resolved \<lparr>ok = False, stream = None\<rparr>) found) = 404"
    using failure_statuses[where tr = "\<lparr>ok = False, stream = None\<rparr>",
        THEN conjunct2, THEN conjunct1] a_valid by simp
  have 3: "status (api_analyze a_runtime a_request (Rejected AbortError) found) = 504"
    using failure_statuses[where e = AbortError and tRes = "Rejected AbortError",
        THEN conjunct2, THEN conjunct2, THEN conjunct1] a_valid by simp
  have 4: "status (api_analyze a_runtime a_request found (Rejected Error)) = 500"
    using failure_statuses[where e = Error and gRes = "Rejected Error",
        THEN conjunct2, THEN conjunct2, THEN conjunct2, THEN conjunct1] a_accepted by simp
  have 5: "status (api_analyze a_runtime a_request found (Resolved \<lparr>ok = False, stream = None\<rparr>)) = 500"
    using failure_statuses[where gr = "\<lparr>ok = False, stream = None\<rparr>",
        THEN conjunct2, THEN conjunct2, THEN conjunct2, THEN conjunct2, THEN conjunct1] a_accepted
    by simp
  have 6: "status (api_analyze a_runtime a_request found (Resolved \<lparr>ok = True, stream = Some [[0x7B]]\<rparr>)) = 500"
    using failure_statuses[where gr = "\<lparr>ok = True, stream = Some [[0x7B]]\<rparr>",
        THEN conjunct2, THEN conjunct2, THEN conjunct2, THEN conjunct2, THEN conjunct2, THEN conjunct1]
      a_accepted a_games_bad
    by simp
  have 7: "status (api_analyze a_runtime a_request found (Resolved \<lparr>ok = True, stream = Some []\<rparr>)) = 404"
    using failure_statuses[where gr = "\<lparr>ok = True, stream = Some []\<rparr>" and st = start,
        THEN conjunct2, THEN conjunct2, THEN conjunct2, THEN conjunct2, THEN conjunct2, THEN conjunct2,
        THEN conjunct1]
      a_accepted a_games_empty
    by (simp add: start_def)
  have 8: "status (api_analyze a_runtime a_request found (Resolved \<lparr>ok = True, stream = Some [[0x7B, 0x7D]]\<rparr>)) = 400"
    using failure_statuses[where gr = "\<lparr>ok = True, stream = Some [[0x7B, 0x7D]]\<rparr>" and st = st,
        THEN conjunct2, THEN conjunct2, THEN conjunct2, THEN conjunct2, THEN conjunct2, THEN conjunct2,
        THEN conjunct2]
      a_accepted st
    by simp
  from 1 2 3 4 5 6 7 8 show ?thesis by blast
qed

subsection \<open>C10: the key of a side\<close>

text \<open>
  C10. The key of a side is its user name when that is a string that is not empty, and
  \<open>Anonymous\<close> when the user is missing, or the name is \<open>null\<close> or the empty string. After
  any stream of games at most one entry of the \<open>Map\<close> has the key \<open>Anonymous\<close>, and its
  \<open>gamesPlayed\<close> counts every side of the stream whose key is \<open>Anonymous\<close>.
\<close>

theorem identity_key:
  "(\<forall>s. opt (opt (opt (get g ''players'') c) ''user'') ''name'' = JStr s \<and> s \<noteq> []
        \<longrightarrow> side_name g c = JStr s) \<and>
   (nullish (opt (opt (get g ''players'') c) ''user'')
      \<or> opt (opt (opt (get g ''players'') c) ''user'') ''name'' = JNull
      \<or> opt (opt (opt (get g ''players'') c) ''user'') ''name'' = JStr []
        \<longrightarrow> side_name g c = JStr ''Anonymous'') \<and>
   (deliver (onItem conv) gs start = Inr st \<longrightarrow>
      count_list (map fst (ps st)) (JStr ''Anonymous'') \<le> 1 \<and>
      played (JStr ''Anonymous'') (ps st) = occurrences (JStr ''Anonymous'') gs)"
proof (intro conjI allI impI)
  fix s assume "opt (opt (opt (get g ''players'') c) ''user'') ''name'' = JStr s \<and> s \<noteq> []"
  then show "side_name g c = JStr s" by (simp add: side_name_def)
next
  assume "nullish (opt (opt (get g ''players'') c) ''user'')
      \<or> opt (opt (opt (get g ''players'') c) ''user'') ''name'' = JNull
      \<or> opt (opt (opt (get g ''players'') c) ''user'') ''name'' = JStr []"
  then show "side_name g c = JStr ''Anonymous''"
    by (auto simp: side_name_def opt_def)
next
  assume r: "deliver (onItem conv) gs start = Inr st"
  have "count_list (map fst (ps start)) (JStr ''Anonymous'') \<le> 1"
    by (simp add: start_def)
  from deliver_key[OF r _ this]
  show "count_list (map fst (ps st)) (JStr ''Anonymous'') \<le> 1"
    and "played (JStr ''Anonymous'') (ps st) = occurrences (JStr ''Anonymous'') gs"
    by (simp_all add: start_def played_def)
qed

text \<open>A game without players, then one whose white name is the empty string.\<close>

theorem identity_key_witness:
  "side_name nameless ''black'' = JStr ''bob'' \<and>
   side_name nameless ''white'' = JStr ''Anonymous'' \<and>
   (\<exists>st. deliver (onItem (\<lambda>v. Inr NaN)) [JObj [], nameless] start = Inr st \<and>
      count_list (map fst (ps st)) (JStr ''Anonymous'') = 1 \<and>
      played (JStr ''Anonymous'') (ps st) = 3)"
proof -
  note th = identity_key[where g = nameless and conv = "\<lambda>v. Inr NaN"
      and gs = "[JObj [], nameless]"]
  have b: "opt (opt (opt (get nameless ''players'') ''black'') ''user'') ''name'' = JStr ''bob''"
    by (simp add: nameless_def opt_def)
  have w: "opt (opt (opt (get nameless ''players'') ''white'') ''user'') ''name'' = JStr []"
    by (simp add: nameless_def opt_def)
  have 1: "side_name nameless ''black'' = JStr ''bob''"
    using th[where c = "''black''", THEN conjunct1, rule_format, of "''bob''"] b by simp
  have 2: "side_name nameless ''white'' = JStr ''Anonymous''"
    using th[where c = "''white''", THEN conjunct2, THEN conjunct1] w by simp
  obtain st where run: "deliver (onItem (\<lambda>v. Inr NaN)) [JObj [], nameless] start = Inr st"
    and keys: "map fst (ps st) = [JStr ''Anonymous'', JStr ''bob'']"
    by (simp add: run_defs nameless_def)
  have o: "occurrences (JStr ''Anonymous'') [JObj [], nameless] = 3"
    by (simp add: occurrences_def 1 2) (simp add: side_name_def opt_def)
  from th[where c = "''white''", THEN conjunct2, THEN conjunct2, rule_format, OF run] o keys run
  show ?thesis using 1 2 by auto
qed

end
